theory Spec2Isabelle
  imports Main
begin

section \<open>Data model of package errs\<close>

text \<open>
  A Go map is a reference: two struct copies that hold the same map see each other's
  writes. A map value is therefore an address into a store of maps (\<open>None\<close> is the nil
  map), and every operation that allocates or writes a map threads the store.
\<close>

type_synonym addr = nat

record mheap =
  cells :: "addr \<Rightarrow> (string \<rightharpoonup> string)"
  next_addr :: addr

text \<open>
  A value of the interface type \<open>error\<close> is nil (\<open>None\<close>) or carries a dynamic value.
  The dynamic value is either an \<open>ErrorWrapper\<close> struct, held by value, or a value of
  any other type (\<open>Foreign\<close>), identified by a pointer into an environment that gives
  what its methods do. A \<open>*ErrorWrapper\<close> stored in an interface is foreign in this
  sense: \<open>errors.As\<close> with a target \<open>&ew\<close>, \<open>ew\<close> an \<open>ErrorWrapper\<close>, matches the struct
  type only.
\<close>

type_synonym ptr = nat

datatype ErrorWrapper =
  ErrorWrapper (Action: string) (Message: string) (Payload: "addr option")
               (Code: int) (Err: "error option")
and error = Wrapped ErrorWrapper | Foreign ptr

text \<open>
  \<open>Code\<close> is a Go \<open>int\<close>. The package stores, compares and prints it and does no
  arithmetic on it, so its width plays no part and it is an \<open>int\<close> here.
\<close>

text \<open>
  A panic is the call of a method on the nil interface, or a panic raised inside a
  method of a foreign error (for one, a value method called through a nil pointer).
\<close>

datatype panic = NilDereference | ForeignPanic string

text \<open>
  The \<open>Unwrap\<close> method of a foreign error: none, \<open>Unwrap() error\<close> or
  \<open>Unwrap() []error\<close> (a type has at most one method of that name), with what the call
  does: it panics or returns.
\<close>

datatype unwrap_method =
    NoUnwrap
  | Single "panic + error option"
  | Multi "panic + error option list"

text \<open>
  What a foreign error does: \<open>ferror\<close> is the call \<open>Error()\<close>, a panic or the string;
  \<open>fas\<close> is the call \<open>As(&ew)\<close>, a panic, \<open>Some w\<close> when it returns true and leaves \<open>w\<close> in
  the target, and \<open>None\<close> when it returns false or the type has no \<open>As\<close> method;
  \<open>funwrap\<close> is its \<open>Unwrap\<close> method. The environment may be cyclic, as a pointer-typed
  error can unwrap to itself.
\<close>

record foreign_error =
  ferror :: "panic + string"
  fas :: "panic + ErrorWrapper option"
  funwrap :: unwrap_method

type_synonym fenv = "ptr \<Rightarrow> foreign_error"


section \<open>Library functions the package calls\<close>

text \<open>
  A map literal allocates a fresh map: the next free address receives the contents.
\<close>

definition alloc :: "(string \<rightharpoonup> string) \<Rightarrow> mheap \<Rightarrow> addr \<times> mheap" where
  "alloc m h =
     (next_addr h, h\<lparr>cells := (cells h)(next_addr h := m), next_addr := Suc (next_addr h)\<rparr>)"

text \<open>The assignment \<open>m[key] = value\<close> on the map at address \<open>a\<close>.\<close>

definition map_assign :: "addr \<Rightarrow> string \<Rightarrow> string \<Rightarrow> mheap \<Rightarrow> mheap" where
  "map_assign a key v h = h\<lparr>cells := (cells h)(a := (cells h a)(key \<mapsto> v))\<rparr>"

text \<open>
  \<open>for k, v := range values { m[k] = v }\<close> on the map at address \<open>a\<close>. The iteration
  order of a Go map is unspecified, and the keys of a map are distinct, so the loop
  ends with every entry of \<open>values\<close> written over \<open>m\<close> whatever the order; ranging over
  the nil map runs no iteration.
\<close>

definition map_assign_all :: "addr \<Rightarrow> addr option \<Rightarrow> mheap \<Rightarrow> mheap" where
  "map_assign_all a vals h =
     (case vals of
        None \<Rightarrow> h
      | Some b \<Rightarrow> h\<lparr>cells := (cells h)(a := cells h a ++ cells h b)\<rparr>)"

text \<open>\<open>fmt.Sprint\<close> of an \<open>int\<close>: the decimal digits, after a minus sign when negative.\<close>

definition digit :: "nat \<Rightarrow> char" where
  "digit n = ''0123456789'' ! n"

function fmt_nat :: "nat \<Rightarrow> string" where
  "fmt_nat n = (if n < 10 then [digit n] else fmt_nat (n div 10) @ [digit (n mod 10)])"
  by pat_completeness auto
termination
  by (relation "measure (\<lambda>n. n)") auto

declare fmt_nat.simps [simp del]

definition Sprint :: "int \<Rightarrow> string" where
  "Sprint i = (if i < 0 then CHR ''-'' # fmt_nat (nat (- i)) else fmt_nat (nat i))"

text \<open>
  Reading a decimal string back, to state that \<open>fmt_nat\<close> writes the decimal digits of
  its argument.
\<close>

fun digit_value :: "char \<Rightarrow> nat" where
  "digit_value c = of_char c - 48"

definition Atoi_nat :: "string \<Rightarrow> nat" where
  "Atoi_nat s = foldl (\<lambda>acc c. 10 * acc + digit_value c) 0 s"

text \<open>The status constants of \<open>net/http\<close> that the package names.\<close>

definition StatusBadRequest :: int where "StatusBadRequest = 400"
definition StatusUnauthorized :: int where "StatusUnauthorized = 401"
definition StatusPaymentRequired :: int where "StatusPaymentRequired = 402"
definition StatusForbidden :: int where "StatusForbidden = 403"
definition StatusNotFound :: int where "StatusNotFound = 404"
definition StatusUnprocessableEntity :: int where "StatusUnprocessableEntity = 422"
definition StatusInternalServerError :: int where "StatusInternalServerError = 500"
definition StatusNotImplemented :: int where "StatusNotImplemented = 501"
definition StatusBadGateway :: int where "StatusBadGateway = 502"
definition StatusServiceUnavailable :: int where "StatusServiceUnavailable = 503"
definition StatusGatewayTimeout :: int where "StatusGatewayTimeout = 504"

text \<open>
  \<open>errors.As(err, &ew)\<close> with \<open>ew\<close> of type \<open>ErrorWrapper\<close>. It is false on nil. On a
  non-nil error the library's loop \<open>as\<close> runs (\<open>Inl\<close> below): true, with the value stored
  in \<open>ew\<close>, when the dynamic type is \<open>ErrorWrapper\<close>; else true when the error has an
  \<open>As\<close> method that returns true; else it goes on with what \<open>Unwrap() error\<close> returns
  (false when that is nil), or tries the non-nil elements of what \<open>Unwrap() []error\<close>
  returns in order (\<open>Inr\<close> below, the range loop) and is true at the first that is;
  else false. The outer \<open>option\<close> is \<open>None\<close> when the walk never ends; \<open>Inl\<close> is a panic
  raised by a method it calls; \<open>Inr\<close> is the boolean result, with the value left in
  the target when it is true.
\<close>

partial_function (option) errors_as ::
  "fenv \<Rightarrow> error + error option list \<Rightarrow> (panic + ErrorWrapper option) option" where
  "errors_as env arg =
     (case arg of
        Inl err \<Rightarrow>
          (case err of
             Wrapped w \<Rightarrow> Some (Inr (Some w))
           | Foreign p \<Rightarrow>
               (case fas (env p) of
                  Inl pn \<Rightarrow> Some (Inl pn)
                | Inr (Some w) \<Rightarrow> Some (Inr (Some w))
                | Inr None \<Rightarrow>
                    (case funwrap (env p) of
                       Single (Inl pn) \<Rightarrow> Some (Inl pn)
                     | Single (Inr None) \<Rightarrow> Some (Inr None)
                     | Single (Inr (Some err')) \<Rightarrow> errors_as env (Inl err')
                     | Multi (Inl pn) \<Rightarrow> Some (Inl pn)
                     | Multi (Inr errs) \<Rightarrow> errors_as env (Inr errs)
                     | NoUnwrap \<Rightarrow> Some (Inr None))))
      | Inr errs \<Rightarrow>
          (case errs of
             [] \<Rightarrow> Some (Inr None)
           | None # rest \<Rightarrow> errors_as env (Inr rest)
           | Some err # rest \<Rightarrow>
               Option.bind (errors_as env (Inl err))
                 (\<lambda>r. case r of
                        Inr None \<Rightarrow> errors_as env (Inr rest)
                      | _ \<Rightarrow> Some r)))"

definition errors_As :: "fenv \<Rightarrow> error option \<Rightarrow> (panic + ErrorWrapper option) option" where
  "errors_As env err =
     (case err of None \<Rightarrow> Some (Inr None) | Some e \<Rightarrow> errors_as env (Inl e))"

section \<open>The methods of ErrorWrapper\<close>

text \<open>
  \<open>Error\<close> is the method of the struct; \<open>error_Error\<close> is the call \<open>e.Error()\<close> on an
  interface value, which panics on the nil interface and dispatches on the dynamic type
  otherwise.
\<close>

function Error :: "fenv \<Rightarrow> ErrorWrapper \<Rightarrow> panic + string"
  and error_Error :: "fenv \<Rightarrow> error option \<Rightarrow> panic + string" where
  "Error env err =
     (if Err err \<noteq> None then error_Error env (Err err)
      else Inr (Message err))"
| "error_Error env None = Inl NilDereference"
| "error_Error env (Some (Wrapped w)) = Error env w"
| "error_Error env (Some (Foreign p)) = ferror (env p)"
  by pat_completeness auto

termination
proof (relation "measure (\<lambda>x. case x of Inl (env, w) \<Rightarrow> size w
                                        | Inr (env, e) \<Rightarrow> size_option size e)")
  fix env :: fenv and err :: ErrorWrapper
  show "(Inr (env, Err err), Inl (env, err))
          \<in> measure (\<lambda>x. case x of Inl (env, w) \<Rightarrow> size w
                                  | Inr (env, e) \<Rightarrow> size_option size e)"
    by (cases err) simp
qed simp_all

definition Unwrap :: "ErrorWrapper \<Rightarrow> error option" where
  "Unwrap err = Err err"

text \<open>
  \<open>None\<close> is the run that never returns a value: \<open>errors.As\<close> walks without end, or
  \<open>Dig\<close> calls itself without end. \<open>Inl\<close> is a panic raised under \<open>errors.As\<close>.
\<close>

partial_function (option) Dig :: "fenv \<Rightarrow> ErrorWrapper \<Rightarrow> (panic + ErrorWrapper) option" where
  "Dig env err =
     (case errors_As env (Err err) of
        None \<Rightarrow> None
      | Some (Inl pn) \<Rightarrow> Some (Inl pn)
      | Some (Inr (Some ew)) \<Rightarrow> Dig env ew
      | Some (Inr None) \<Rightarrow> Some (Inr err))"

text \<open>The struct with its \<open>Payload\<close> field assigned.\<close>

definition set_Payload :: "ErrorWrapper \<Rightarrow> addr option \<Rightarrow> ErrorWrapper" where
  "set_Payload err p = ErrorWrapper (Action err) (Message err) p (Code err) (Err err)"

text \<open>
  The two methods with a pointer receiver return the struct as the call leaves it,
  with the store of maps.
\<close>

definition AddPayloadValue ::
  "ErrorWrapper \<Rightarrow> string \<Rightarrow> string \<Rightarrow> mheap \<Rightarrow> ErrorWrapper \<times> mheap" where
  "AddPayloadValue err key v h =
     (case Payload err of
        None \<Rightarrow> (let (a, h') = alloc [key \<mapsto> v] h in (set_Payload err (Some a), h'))
      | Some a \<Rightarrow> (err, map_assign a key v h))"

definition AddPayloadValues ::
  "ErrorWrapper \<Rightarrow> addr option \<Rightarrow> mheap \<Rightarrow> ErrorWrapper \<times> mheap" where
  "AddPayloadValues err vals h =
     (case Payload err of
        None \<Rightarrow> (set_Payload err vals, h)
      | Some a \<Rightarrow> (err, map_assign_all a vals h))"

definition AsJSONResponse :: "ErrorWrapper \<Rightarrow> mheap \<Rightarrow> addr \<times> mheap" where
  "AsJSONResponse err h = alloc [''action'' \<mapsto> Action err, ''message'' \<mapsto> Message err] h"

section \<open>DecodeError and the constructors\<close>

definition DecodeError :: "fenv \<Rightarrow> error option \<Rightarrow> (panic + ErrorWrapper) option" where
  "DecodeError env err =
     (case errors_As env err of
        None \<Rightarrow> None
      | Some (Inl pn) \<Rightarrow> Some (Inl pn)
      | Some (Inr (Some ew)) \<Rightarrow> Some (Inr ew)
      | Some (Inr None) \<Rightarrow>
          Some (case error_Error env err of
                  Inl pn \<Rightarrow> Inl pn
                | Inr s \<Rightarrow> Inr (ErrorWrapper ''generic'' s None StatusInternalServerError err)))"

definition NewErrorWrapper ::
  "string \<Rightarrow> string \<Rightarrow> int \<Rightarrow> error option \<Rightarrow> addr option \<Rightarrow> mheap \<Rightarrow> error option \<times> mheap" where
  "NewErrorWrapper action message code err payload h =
     (let ew = ErrorWrapper action message payload code err;
          (lit, h1) = alloc [''code'' \<mapsto> Sprint code, ''human_message'' \<mapsto> message] h;
          (ew', h2) = AddPayloadValues ew (Some lit) h1
      in (Some (Wrapped ew'), h2))"

definition NewBadRequestError ::
  "string \<Rightarrow> string \<Rightarrow> error option \<Rightarrow> addr option \<Rightarrow> mheap \<Rightarrow> error option \<times> mheap" where
  "NewBadRequestError action message err payload h =
     (let code = StatusBadRequest;
          ew = ErrorWrapper action message payload code err;
          (lit, h1) = alloc [''code'' \<mapsto> Sprint code, ''human_message'' \<mapsto> message] h;
          (ew', h2) = AddPayloadValues ew (Some lit) h1
      in (Some (Wrapped ew'), h2))"

definition NewUnauthorizedError ::
  "string \<Rightarrow> string \<Rightarrow> error option \<Rightarrow> addr option \<Rightarrow> mheap \<Rightarrow> error option \<times> mheap" where
  "NewUnauthorizedError action message err payload h =
     (let code = StatusUnauthorized;
          ew = ErrorWrapper action message payload code err;
          (lit, h1) = alloc [''code'' \<mapsto> Sprint code, ''human_message'' \<mapsto> message] h;
          (ew', h2) = AddPayloadValues ew (Some lit) h1
      in (Some (Wrapped ew'), h2))"

definition NewPaymentRequiredError ::
  "string \<Rightarrow> string \<Rightarrow> error option \<Rightarrow> addr option \<Rightarrow> mheap \<Rightarrow> error option \<times> mheap" where
  "NewPaymentRequiredError action message err payload h =
     (let code = StatusPaymentRequired;
          ew = ErrorWrapper action message payload code err;
          (lit, h1) = alloc [''code'' \<mapsto> Sprint code, ''human_message'' \<mapsto> message] h;
          (ew', h2) = AddPayloadValues ew (Some lit) h1
      in (Some (Wrapped ew'), h2))"

definition NewForbiddenError ::
  "string \<Rightarrow> string \<Rightarrow> error option \<Rightarrow> addr option \<Rightarrow> mheap \<Rightarrow> error option \<times> mheap" where
  "NewForbiddenError action message err payload h =
     (let code = StatusForbidden;
          ew = ErrorWrapper action message payload code err;
          (lit, h1) = alloc [''code'' \<mapsto> Sprint code, ''human_message'' \<mapsto> message] h;
          (ew', h2) = AddPayloadValues ew (Some lit) h1
      in (Some (Wrapped ew'), h2))"

definition NewNotFoundError ::
  "string \<Rightarrow> string \<Rightarrow> error option \<Rightarrow> addr option \<Rightarrow> mheap \<Rightarrow> error option \<times> mheap" where
  "NewNotFoundError action message err payload h =
     (let code = StatusNotFound;
          ew = ErrorWrapper action message payload code err;
          (lit, h1) = alloc [''code'' \<mapsto> Sprint code, ''human_message'' \<mapsto> message] h;
          (ew', h2) = AddPayloadValues ew (Some lit) h1
      in (Some (Wrapped ew'), h2))"

definition NewUnprocessableEntityError ::
  "string \<Rightarrow> string \<Rightarrow> error option \<Rightarrow> addr option \<Rightarrow> mheap \<Rightarrow> error option \<times> mheap" where
  "NewUnprocessableEntityError action message err payload h =
     (let code = StatusUnprocessableEntity;
          ew = ErrorWrapper action message payload code err;
          (lit, h1) = alloc [''code'' \<mapsto> Sprint code, ''human_message'' \<mapsto> message] h;
          (ew', h2) = AddPayloadValues ew (Some lit) h1
      in (Some (Wrapped ew'), h2))"

definition NewInternalServerError ::
  "string \<Rightarrow> string \<Rightarrow> error option \<Rightarrow> addr option \<Rightarrow> mheap \<Rightarrow> error option \<times> mheap" where
  "NewInternalServerError action message err payload h =
     (let code = StatusInternalServerError;
          ew = ErrorWrapper action message payload code err;
          (lit, h1) = alloc [''code'' \<mapsto> Sprint code, ''human_message'' \<mapsto> message] h;
          (ew', h2) = AddPayloadValues ew (Some lit) h1
      in (Some (Wrapped ew'), h2))"

definition NewNotImplementedError ::
  "string \<Rightarrow> string \<Rightarrow> error option \<Rightarrow> addr option \<Rightarrow> mheap \<Rightarrow> error option \<times> mheap" where
  "NewNotImplementedError action message err payload h =
     (let code = StatusNotImplemented;
          ew = ErrorWrapper action message payload code err;
          (lit, h1) = alloc [''code'' \<mapsto> Sprint code, ''human_message'' \<mapsto> message] h;
          (ew', h2) = AddPayloadValues ew (Some lit) h1
      in (Some (Wrapped ew'), h2))"

definition NewBadGatewayError ::
  "string \<Rightarrow> string \<Rightarrow> error option \<Rightarrow> addr option \<Rightarrow> mheap \<Rightarrow> error option \<times> mheap" where
  "NewBadGatewayError action message err payload h =
     (let code = StatusBadGateway;
          ew = ErrorWrapper action message payload code err;
          (lit, h1) = alloc [''code'' \<mapsto> Sprint code, ''human_message'' \<mapsto> message] h;
          (ew', h2) = AddPayloadValues ew (Some lit) h1
      in (Some (Wrapped ew'), h2))"

definition NewServiceUnavailableError ::
  "string \<Rightarrow> string \<Rightarrow> error option \<Rightarrow> addr option \<Rightarrow> mheap \<Rightarrow> error option \<times> mheap" where
  "NewServiceUnavailableError action message err payload h =
     (let code = StatusServiceUnavailable;
          ew = ErrorWrapper action message payload code err;
          (lit, h1) = alloc [''code'' \<mapsto> Sprint code, ''human_message'' \<mapsto> message] h;
          (ew', h2) = AddPayloadValues ew (Some lit) h1
      in (Some (Wrapped ew'), h2))"

definition NewGatewayTimeoutError ::
  "string \<Rightarrow> string \<Rightarrow> error option \<Rightarrow> addr option \<Rightarrow> mheap \<Rightarrow> error option \<times> mheap" where
  "NewGatewayTimeoutError action message err payload h =
     (let code = StatusGatewayTimeout;
          ew = ErrorWrapper action message payload code err;
          (lit, h1) = alloc [''code'' \<mapsto> Sprint code, ''human_message'' \<mapsto> message] h;
          (ew', h2) = AddPayloadValues ew (Some lit) h1
      in (Some (Wrapped ew'), h2))"


section \<open>Observations used to state the properties\<close>

text \<open>
  The unwrap tree of an error, walked depth first: the error itself, then what it
  unwraps to (\<open>Unwrap\<close> for a wrapper; the result of \<open>Unwrap() error\<close>, or the elements in
  order of \<open>Unwrap() []error\<close>, for a foreign error whose call returns). The first
  argument bounds the depth: the result is \<open>None\<close> when the tree is deeper, so a tree is
  finite when some bound gives a list.
\<close>

fun preorder :: "nat \<Rightarrow> fenv \<Rightarrow> error option \<Rightarrow> error list option" where
  "preorder 0 env e = None"
| "preorder (Suc n) env None = Some []"
| "preorder (Suc n) env (Some (Wrapped w)) =
     map_option (Cons (Wrapped w)) (preorder n env (Unwrap w))"
| "preorder (Suc n) env (Some (Foreign p)) =
     (case funwrap (env p) of
        Single (Inr e') \<Rightarrow> map_option (Cons (Foreign p)) (preorder n env e')
      | Multi (Inr es) \<Rightarrow>
          map_option (\<lambda>xss. Foreign p # concat xss) (those (map (preorder n env) es))
      | _ \<Rightarrow> Some [Foreign p])"

fun is_Wrapped :: "error \<Rightarrow> bool" where
  "is_Wrapped (Wrapped w) = True"
| "is_Wrapped (Foreign p) = False"

fun unwrap_panics :: "unwrap_method \<Rightarrow> bool" where
  "unwrap_panics (Single (Inl pn)) = True"
| "unwrap_panics (Multi (Inl pn)) = True"
| "unwrap_panics u = False"

text \<open>
  A quiet error is a foreign error whose \<open>As\<close> is false (or absent) and whose \<open>Unwrap\<close>
  does not panic: \<open>errors.As\<close> passes it and goes on below it.
\<close>

fun quiet :: "fenv \<Rightarrow> error \<Rightarrow> bool" where
  "quiet env (Wrapped w) = False"
| "quiet env (Foreign p) = (fas (env p) = Inr None \<and> \<not> unwrap_panics (funwrap (env p)))"

text \<open>
  A link of a chain: a wrapper, or a quiet foreign error with no \<open>Unwrap() []error\<close>.
  A tree of such errors has one branch, and its walk is the chain.
\<close>

fun chain_link :: "fenv \<Rightarrow> error \<Rightarrow> bool" where
  "chain_link env (Wrapped w) = True"
| "chain_link env (Foreign p) =
     (fas (env p) = Inr None \<and>
      (case funwrap (env p) of NoUnwrap \<Rightarrow> True | Single (Inr e) \<Rightarrow> True | _ \<Rightarrow> False))"

text \<open>
  What a walk decides: the first error of the list that is a wrapper, or answers \<open>As\<close>
  with true, or panics in \<open>As\<close> or \<open>Unwrap\<close>; false when there is none.
\<close>

fun decide :: "fenv \<Rightarrow> error list \<Rightarrow> panic + ErrorWrapper option" where
  "decide env [] = Inr None"
| "decide env (Wrapped w # xs) = Inr (Some w)"
| "decide env (Foreign p # xs) =
     (case fas (env p) of
        Inl pn \<Rightarrow> Inl pn
      | Inr (Some w) \<Rightarrow> Inr (Some w)
      | Inr None \<Rightarrow>
          (case funwrap (env p) of
             Single (Inl pn) \<Rightarrow> Inl pn
           | Multi (Inl pn) \<Rightarrow> Inl pn
           | _ \<Rightarrow> decide env xs))"

text \<open>The read \<open>w.Payload[k]\<close>, with \<open>None\<close> for a key that is absent (or a nil map).\<close>

definition payload_get :: "mheap \<Rightarrow> ErrorWrapper \<Rightarrow> string \<Rightarrow> string option" where
  "payload_get h w k = (case Payload w of None \<Rightarrow> None | Some a \<Rightarrow> cells h a k)"

text \<open>
  The constructors return the struct as an \<open>error\<close>; \<open>as_wrapper\<close> is the type
  assertion \<open>e.(ErrorWrapper)\<close> back to the struct.
\<close>

definition as_wrapper :: "error option \<Rightarrow> ErrorWrapper option" where
  "as_wrapper e = (case e of Some (Wrapped w) \<Rightarrow> Some w | _ \<Rightarrow> None)"

definition result_code :: "error option \<times> mheap \<Rightarrow> int option" where
  "result_code r = map_option Code (as_wrapper (fst r))"

text \<open>
  The public constructors, by name, with the status each one documents; the generic
  builder takes its status as an argument.
\<close>

datatype ctor =
    Generic int
  | BadRequest | Unauthorized | PaymentRequired | Forbidden | NotFound
  | UnprocessableEntity | InternalServerError | NotImplemented | BadGateway
  | ServiceUnavailable | GatewayTimeout

fun construct ::
  "ctor \<Rightarrow> string \<Rightarrow> string \<Rightarrow> error option \<Rightarrow> addr option \<Rightarrow> mheap \<Rightarrow> error option \<times> mheap" where
  "construct (Generic code) action message err payload h =
     NewErrorWrapper action message code err payload h"
| "construct BadRequest action message err payload h =
     NewBadRequestError action message err payload h"
| "construct Unauthorized action message err payload h =
     NewUnauthorizedError action message err payload h"
| "construct PaymentRequired action message err payload h =
     NewPaymentRequiredError action message err payload h"
| "construct Forbidden action message err payload h =
     NewForbiddenError action message err payload h"
| "construct NotFound action message err payload h =
     NewNotFoundError action message err payload h"
| "construct UnprocessableEntity action message err payload h =
     NewUnprocessableEntityError action message err payload h"
| "construct InternalServerError action message err payload h =
     NewInternalServerError action message err payload h"
| "construct NotImplemented action message err payload h =
     NewNotImplementedError action message err payload h"
| "construct BadGateway action message err payload h =
     NewBadGatewayError action message err payload h"
| "construct ServiceUnavailable action message err payload h =
     NewServiceUnavailableError action message err payload h"
| "construct GatewayTimeout action message err payload h =
     NewGatewayTimeoutError action message err payload h"

fun documented_status :: "ctor \<Rightarrow> int" where
  "documented_status (Generic code) = code"
| "documented_status BadRequest = 400"
| "documented_status Unauthorized = 401"
| "documented_status PaymentRequired = 402"
| "documented_status Forbidden = 403"
| "documented_status NotFound = 404"
| "documented_status UnprocessableEntity = 422"
| "documented_status InternalServerError = 500"
| "documented_status NotImplemented = 501"
| "documented_status BadGateway = 502"
| "documented_status ServiceUnavailable = 503"
| "documented_status GatewayTimeout = 504"


section \<open>Example values\<close>

text \<open>
  A wrapper with no cause, and an environment of foreign errors:
  0 is a plain error (\<open>errors.New("boom")\<close>);
  1 is \<open>fmt.Errorf("ctx: %w", leaf)\<close>, a foreign error that wraps the wrapper;
  2 is a pointer-typed error that unwraps to itself;
  3 is \<open>fmt.Errorf("retry: %w", e1)\<close> around error 1;
  4 is \<open>errors.Join(e0, leaf)\<close>, whose \<open>Unwrap() []error\<close> returns both;
  5 is the nil pointer \<open>(*ErrorWrapper)(nil)\<close>, a non-nil error whose methods panic;
  6 is an error with an \<open>As\<close> method that stores \<open>leaf\<close> in the target;
  7 is an error with an \<open>As\<close> method that stores the wrapper that holds it as cause.
\<close>

definition leaf :: ErrorWrapper where
  "leaf = ErrorWrapper ''db.find'' ''user not found'' None 404 None"

definition nil_pointer_panic :: panic where
  "nil_pointer_panic = ForeignPanic ''value method called using nil *ErrorWrapper pointer''"

definition over_adapter :: ErrorWrapper where
  "over_adapter = ErrorWrapper ''svc.get'' ''lookup failed'' None 500 (Some (Foreign 7))"

definition env_ex :: fenv where
  "env_ex p =
     (if p = 1 then
        \<lparr>ferror = Inr ''ctx: user not found'', fas = Inr None,
         funwrap = Single (Inr (Some (Wrapped leaf)))\<rparr>
      else if p = 2 then
        \<lparr>ferror = Inr ''loop'', fas = Inr None, funwrap = Single (Inr (Some (Foreign 2)))\<rparr>
      else if p = 3 then
        \<lparr>ferror = Inr ''retry: ctx: user not found'', fas = Inr None,
         funwrap = Single (Inr (Some (Foreign 1)))\<rparr>
      else if p = 4 then
        \<lparr>ferror = Inr (''boom'' @ CHR 0x0A # ''user not found''), fas = Inr None,
         funwrap = Multi (Inr [Some (Foreign 0), Some (Wrapped leaf)])\<rparr>
      else if p = 5 then
        \<lparr>ferror = Inl nil_pointer_panic, fas = Inr None,
         funwrap = Single (Inl nil_pointer_panic)\<rparr>
      else if p = 6 then
        \<lparr>ferror = Inr ''adapter'', fas = Inr (Some leaf), funwrap = NoUnwrap\<rparr>
      else if p = 7 then
        \<lparr>ferror = Inr ''adapter'', fas = Inr (Some over_adapter), funwrap = NoUnwrap\<rparr>
      else \<lparr>ferror = Inr ''boom'', fas = Inr None, funwrap = NoUnwrap\<rparr>)"

definition over_plain :: ErrorWrapper where
  "over_plain = ErrorWrapper ''svc.get'' ''lookup failed'' None 500 (Some (Foreign 0))"

definition over_ctx :: ErrorWrapper where
  "over_ctx = ErrorWrapper ''api.get'' ''request failed'' None 403 (Some (Foreign 1))"

definition over_retry :: ErrorWrapper where
  "over_retry = ErrorWrapper ''job.run'' ''job failed'' None 502 (Some (Foreign 3))"

definition over_loop :: ErrorWrapper where
  "over_loop = ErrorWrapper ''job.run'' ''job failed'' None 500 (Some (Foreign 2))"

definition over_join :: ErrorWrapper where
  "over_join = ErrorWrapper ''batch.run'' ''batch failed'' None 500 (Some (Foreign 4))"

definition over_nil_pointer :: ErrorWrapper where
  "over_nil_pointer = ErrorWrapper ''svc.get'' ''lookup failed'' None 500 (Some (Foreign 5))"

definition mid :: ErrorWrapper where
  "mid = ErrorWrapper ''svc.get'' ''lookup failed'' None 502 (Some (Wrapped leaf))"

definition outer :: ErrorWrapper where
  "outer = ErrorWrapper ''api.get'' ''request failed'' None 500 (Some (Wrapped mid))"

text \<open>An environment in which no foreign error panics.\<close>

definition env_plain :: fenv where
  "env_plain p = \<lparr>ferror = Inr ''boom'', fas = Inr None, funwrap = NoUnwrap\<rparr>"

text \<open>A store with one map, at address 0, as a caller would pass it to a constructor.\<close>

definition heap_ex :: mheap where
  "heap_ex =
     \<lparr>cells = (\<lambda>a. if a = 0 then [''code'' \<mapsto> ''teapot'', ''trace'' \<mapsto> ''abc''] else Map.empty),
      next_addr = 1\<rparr>"

text \<open>The wrapper that \<open>NewNotFoundError\<close> returns when it is given the map at address 0.\<close>

definition bare :: ErrorWrapper where
  "bare = ErrorWrapper ''db.find'' ''user not found'' (Some 0) 404 None"

section \<open>errors.As on a finite unwrap tree\<close>

lemma decide_append:
  "decide env (xs @ ys) = (case decide env xs of Inr None \<Rightarrow> decide env ys | r \<Rightarrow> r)"
proof (induction xs)
  case Nil
  show ?case by simp
next
  case (Cons x xs)
  show ?case
  proof (cases x)
    case (Wrapped w)
    then show ?thesis by simp
  next
    case (Foreign p)
    then show ?thesis using Cons.IH
      by (simp split: sum.split option.split unwrap_method.split)
  qed
qed

lemma errors_as_Wrapped: "errors_as env (Inl (Wrapped w)) = Some (Inr (Some w))"
  by (subst errors_as.simps) simp

lemma errors_as_Foreign:
  "errors_as env (Inl (Foreign p)) =
     (case fas (env p) of
        Inl pn \<Rightarrow> Some (Inl pn)
      | Inr (Some w) \<Rightarrow> Some (Inr (Some w))
      | Inr None \<Rightarrow>
          (case funwrap (env p) of
             Single (Inl pn) \<Rightarrow> Some (Inl pn)
           | Single (Inr None) \<Rightarrow> Some (Inr None)
           | Single (Inr (Some err')) \<Rightarrow> errors_as env (Inl err')
           | Multi (Inl pn) \<Rightarrow> Some (Inl pn)
           | Multi (Inr errs) \<Rightarrow> errors_as env (Inr errs)
           | NoUnwrap \<Rightarrow> Some (Inr None)))"
  by (subst errors_as.simps) simp

lemma errors_as_Nil: "errors_as env (Inr []) = Some (Inr None)"
  by (subst errors_as.simps) simp

lemma errors_as_Cons_nil: "errors_as env (Inr (None # rest)) = errors_as env (Inr rest)"
  by (subst errors_as.simps) simp

lemma errors_as_Cons:
  "errors_as env (Inr (Some err # rest)) =
     Option.bind (errors_as env (Inl err))
       (\<lambda>r. case r of Inr None \<Rightarrow> errors_as env (Inr rest) | _ \<Rightarrow> Some r)"
  by (subst errors_as.simps) simp

lemma errors_As_nil: "errors_As env None = Some (Inr None)"
  by (simp add: errors_As_def)

lemma errors_As_Some: "errors_As env (Some e) = errors_as env (Inl e)"
  by (simp add: errors_As_def)

lemma those_map_Some:
  "those (map f es) = Some xss \<Longrightarrow> list_all2 (\<lambda>e xs. f e = Some xs) es xss"
proof (induction es arbitrary: xss)
  case Nil
  then show ?case by simp
next
  case (Cons e es)
  then show ?case by (auto split: option.splits)
qed

text \<open>The children loop, given what each child's walk decides.\<close>

lemma errors_as_children:
  assumes "list_all2 (\<lambda>e xs. preorder n env e = Some xs) es xss"
    and IH: "\<And>e xs. preorder n env e = Some xs \<Longrightarrow> errors_As env e = Some (decide env xs)"
  shows "errors_as env (Inr es) = Some (decide env (concat xss))"
  using assms(1)
proof (induction es xss rule: list_all2_induct)
  case Nil
  show ?case by (simp add: errors_as_Nil)
next
  case (Cons e es xs xss)
  have e: "errors_As env e = Some (decide env xs)" using Cons.hyps(1) by (rule IH)
  show ?case
  proof (cases e)
    case None
    then have "xs = []" using Cons.hyps(1) by (cases n) simp_all
    then show ?thesis using None Cons.IH by (simp add: errors_as_Cons_nil)
  next
    case (Some err)
    then have "errors_as env (Inl err) = Some (decide env xs)" using e by (simp add: errors_As_Some)
    then show ?thesis using Some Cons.IH
      by (simp add: errors_as_Cons decide_append split: sum.split option.split)
  qed
qed

lemma errors_As_decide:
  "preorder n env e = Some xs \<Longrightarrow> errors_As env e = Some (decide env xs)"
proof (induction n arbitrary: e xs)
  case 0
  then show ?case by simp
next
  case (Suc n)
  show ?case
  proof (cases e)
    case None
    then show ?thesis using Suc.prems by (simp add: errors_As_nil)
  next
    case (Some x)
    show ?thesis
    proof (cases x)
      case (Wrapped w)
      then show ?thesis using Some Suc.prems
        by (auto simp add: errors_As_Some errors_as_Wrapped)
    next
      case (Foreign p)
      note e = Some Foreign
      show ?thesis
      proof (cases "funwrap (env p)")
        case NoUnwrap
        then show ?thesis using e Suc.prems
          by (auto simp add: errors_As_Some errors_as_Foreign split: sum.split option.split)
      next
        case (Single r)
        show ?thesis
        proof (cases r)
          case (Inl pn)
          then show ?thesis using e Single Suc.prems
            by (auto simp add: errors_As_Some errors_as_Foreign split: sum.split option.split)
        next
          case (Inr e')
          then obtain ys where ys: "preorder n env e' = Some ys" and xs: "xs = Foreign p # ys"
            using e Single Suc.prems by auto
          have "errors_As env e' = Some (decide env ys)" using ys by (rule Suc.IH)
          then show ?thesis using e Single Inr xs
            by (cases e')
               (auto simp add: errors_As_Some errors_As_nil errors_as_Foreign
                     split: sum.split option.split)
        qed
      next
        case (Multi r)
        show ?thesis
        proof (cases r)
          case (Inl pn)
          then show ?thesis using e Multi Suc.prems
            by (auto simp add: errors_As_Some errors_as_Foreign split: sum.split option.split)
        next
          case (Inr es)
          then obtain xss where xss: "those (map (preorder n env) es) = Some xss"
            and xs: "xs = Foreign p # concat xss"
            using e Multi Suc.prems by auto
          have "list_all2 (\<lambda>e xs. preorder n env e = Some xs) es xss"
            using xss by (rule those_map_Some)
          then have "errors_as env (Inr es) = Some (decide env (concat xss))"
            using Suc.IH by (rule errors_as_children)
          then show ?thesis using e Multi Inr xs
            by (auto simp add: errors_As_Some errors_as_Foreign split: sum.split option.split)
        qed
      qed
    qed
  qed
qed

lemma decide_quiet_prefix:
  "\<forall>x\<in>set pre. quiet env x \<Longrightarrow> decide env (pre @ ys) = decide env ys"
proof (induction pre)
  case Nil
  show ?case by simp
next
  case (Cons x pre)
  then obtain p where x: "x = Foreign p" and q: "fas (env p) = Inr None"
    "\<not> unwrap_panics (funwrap (env p))"
    by (cases x) auto
  have "decide env (Foreign p # (pre @ ys)) = decide env (pre @ ys)"
    using q by (cases "funwrap (env p)") (auto split: sum.split)
  then show ?case using Cons x by simp
qed

lemma decide_all_quiet: "\<forall>x\<in>set xs. quiet env x \<Longrightarrow> decide env xs = Inr None"
  using decide_quiet_prefix[of xs env "[]"] by simp

lemma decide_first_wrapper:
  "\<forall>x\<in>set pre. quiet env x \<Longrightarrow> decide env (pre @ Wrapped w # post) = Inr (Some w)"
  by (simp add: decide_quiet_prefix)

text \<open>
  When every node is a wrapper or a quiet foreign error, the walk decides without a
  panic, and a wrapper it finds is a node of the walk.
\<close>

lemma decide_calm:
  assumes "\<forall>x\<in>set xs. is_Wrapped x \<or> quiet env x"
  shows "decide env xs = Inr None \<and> (\<forall>x\<in>set xs. quiet env x) \<or>
         (\<exists>pre w post. xs = pre @ Wrapped w # post \<and> (\<forall>x\<in>set pre. quiet env x) \<and>
                        decide env xs = Inr (Some w))"
  using assms
proof (induction xs)
  case Nil
  show ?case by simp
next
  case (Cons x xs)
  show ?case
  proof (cases x)
    case (Wrapped w)
    have "x # xs = [] @ Wrapped w # xs" using Wrapped by simp
    moreover have "decide env (x # xs) = Inr (Some w)" using Wrapped by simp
    moreover have "\<forall>y\<in>set ([]::error list). quiet env y" by simp
    ultimately show ?thesis by blast
  next
    case (Foreign p)
    then have q: "quiet env x" using Cons.prems by auto
    have step: "decide env (x # xs) = decide env xs"
      using decide_quiet_prefix[of "[x]" env xs] q by simp
    from Cons.IH Cons.prems consider
      (none) "decide env xs = Inr None" "\<forall>x\<in>set xs. quiet env x"
      | (found) pre w post where "xs = pre @ Wrapped w # post" "\<forall>x\<in>set pre. quiet env x"
          "decide env xs = Inr (Some w)"
      by auto
    then show ?thesis
    proof cases
      case none
      then show ?thesis using q step by simp
    next
      case found
      have "x # xs = (x # pre) @ Wrapped w # post" using found(1) by simp
      moreover have "\<forall>y\<in>set (x # pre). quiet env y" using found(2) q by simp
      moreover have "decide env (x # xs) = Inr (Some w)" using found(3) step by simp
      ultimately show ?thesis by blast
    qed
  qed
qed

lemma list_all2_right: "list_all2 P xs ys \<Longrightarrow> y \<in> set ys \<Longrightarrow> \<exists>x\<in>set xs. P x y"
  by (induction rule: list_all2_induct) auto

section \<open>Dig\<close>

lemma Dig_not_found: "errors_As env (Err w) = Some (Inr None) \<Longrightarrow> Dig env w = Some (Inr w)"
  by (subst Dig.simps) simp

lemma Dig_found: "errors_As env (Err w) = Some (Inr (Some ew)) \<Longrightarrow> Dig env w = Dig env ew"
  by (subst Dig.simps) simp

lemma Dig_panics: "errors_As env (Err w) = Some (Inl pn) \<Longrightarrow> Dig env w = Some (Inl pn)"
  by (subst Dig.simps) simp

lemma Dig_diverges: "errors_As env (Err w) = None \<Longrightarrow> Dig env w = None"
  by (subst Dig.simps) simp

lemma Dig_no_cause: "Err w = None \<Longrightarrow> Dig env w = Some (Inr w)"
  by (simp add: Dig_not_found errors_As_nil)

text \<open>The walk of a wrapper met in a walk is again a walk, on no more fuel, of nodes of the first.\<close>

lemma preorder_subtree:
  "preorder n env e = Some xs \<Longrightarrow> Wrapped x \<in> set xs \<Longrightarrow>
   \<exists>m\<le>n. \<exists>zs. preorder m env (Some (Wrapped x)) = Some zs \<and> set zs \<subseteq> set xs"
proof (induction n arbitrary: e xs)
  case 0
  then show ?case by simp
next
  case (Suc n)
  show ?case
  proof (cases e)
    case None
    then show ?thesis using Suc.prems by simp
  next
    case (Some y)
    show ?thesis
    proof (cases y)
      case (Wrapped v)
      then obtain ys where ys: "preorder n env (Unwrap v) = Some ys" and xs: "xs = Wrapped v # ys"
        using Some Suc.prems(1) by auto
      show ?thesis
      proof (cases "x = v")
        case True
        then have "preorder (Suc n) env (Some (Wrapped x)) = Some xs"
          using Some Wrapped Suc.prems(1) by simp
        then show ?thesis by blast
      next
        case False
        then have "Wrapped x \<in> set ys" using Suc.prems(2) xs by simp
        from Suc.IH[OF ys this] obtain m zs where "m \<le> n"
          "preorder m env (Some (Wrapped x)) = Some zs" "set zs \<subseteq> set ys" by blast
        then show ?thesis using xs by (intro exI[of _ m]) auto
      qed
    next
      case (Foreign p)
      note e = Some Foreign
      show ?thesis
      proof (cases "funwrap (env p)")
        case NoUnwrap
        then show ?thesis using e Suc.prems by auto
      next
        case (Single r)
        show ?thesis
        proof (cases r)
          case (Inl pn)
          then show ?thesis using e Single Suc.prems by auto
        next
          case (Inr e')
          then obtain ys where ys: "preorder n env e' = Some ys" and xs: "xs = Foreign p # ys"
            using e Single Suc.prems(1) by auto
          have "Wrapped x \<in> set ys" using Suc.prems(2) xs by simp
          from Suc.IH[OF ys this] obtain m zs where "m \<le> n"
            "preorder m env (Some (Wrapped x)) = Some zs" "set zs \<subseteq> set ys" by blast
          then show ?thesis using xs by (intro exI[of _ m]) auto
        qed
      next
        case (Multi r)
        show ?thesis
        proof (cases r)
          case (Inl pn)
          then show ?thesis using e Multi Suc.prems by auto
        next
          case (Inr es)
          then obtain xss where xss: "those (map (preorder n env) es) = Some xss"
            and xs: "xs = Foreign p # concat xss"
            using e Multi Suc.prems(1) by auto
          have all2: "list_all2 (\<lambda>e xs. preorder n env e = Some xs) es xss"
            using xss by (rule those_map_Some)
          have "Wrapped x \<in> set (concat xss)" using Suc.prems(2) xs by simp
          then obtain ys where ys: "ys \<in> set xss" "Wrapped x \<in> set ys" by auto
          then obtain e' where "preorder n env e' = Some ys"
            using list_all2_right[OF all2] by blast
          from Suc.IH[OF this ys(2)] obtain m zs where "m \<le> n"
            "preorder m env (Some (Wrapped x)) = Some zs" "set zs \<subseteq> set ys" by blast
          then show ?thesis using xs ys(1) by (intro exI[of _ m]) auto
        qed
      qed
    qed
  qed
qed

text \<open>
  On a finite unwrap tree whose foreign errors are quiet, \<open>Dig\<close> returns a wrapper of
  the tree.
\<close>

lemma Dig_returns:
  "preorder n env (Some (Wrapped w)) = Some xs \<Longrightarrow> \<forall>x\<in>set xs. is_Wrapped x \<or> quiet env x \<Longrightarrow>
   \<exists>w'. Dig env w = Some (Inr w') \<and> Wrapped w' \<in> set xs"
proof (induction n arbitrary: w xs rule: less_induct)
  case (less n)
  then obtain k where n: "n = Suc k" by (cases n) simp_all
  obtain ys where ys: "preorder k env (Err w) = Some ys" and xs: "xs = Wrapped w # ys"
    using less.prems(1) n by (auto simp add: Unwrap_def)
  have as: "errors_As env (Err w) = Some (decide env ys)" using ys by (rule errors_As_decide)
  have calm: "\<forall>x\<in>set ys. is_Wrapped x \<or> quiet env x" using less.prems(2) xs by simp
  from decide_calm[OF calm] consider
    (none) "decide env ys = Inr None"
    | (found) pre v post where "ys = pre @ Wrapped v # post" "decide env ys = Inr (Some v)"
    by blast
  then show ?case
  proof cases
    case none
    then have "Dig env w = Some (Inr w)" using as by (simp add: Dig_not_found)
    then show ?thesis using xs by simp
  next
    case found
    have dig: "Dig env w = Dig env v" using as found(2) by (simp add: Dig_found)
    have "Wrapped v \<in> set ys" using found(1) by simp
    from preorder_subtree[OF ys this] obtain m zs where m: "m \<le> k"
      and zs: "preorder m env (Some (Wrapped v)) = Some zs" and sub: "set zs \<subseteq> set ys" by blast
    have "m < n" using m n by simp
    moreover have "\<forall>x\<in>set zs. is_Wrapped x \<or> quiet env x" using calm sub by blast
    ultimately obtain w' where "Dig env v = Some (Inr w')" "Wrapped w' \<in> set zs"
      using less.IH zs by blast
    then show ?thesis using dig sub xs by auto
  qed
qed

lemma chain_link_calm: "chain_link env x \<Longrightarrow> is_Wrapped x \<or> quiet env x"
  by (cases x) (auto split: unwrap_method.splits sum.splits)

lemma quiet_not_Wrapped: "quiet env x \<Longrightarrow> \<not> is_Wrapped x"
  by (cases x) simp_all

lemma preorder_chain_suffix:
  "preorder n env e = Some (pre @ Wrapped x # post) \<Longrightarrow>
   \<forall>y\<in>set pre. quiet env y \<and> chain_link env y \<Longrightarrow>
   \<exists>m\<le>n. preorder m env (Some (Wrapped x)) = Some (Wrapped x # post)"
proof (induction n arbitrary: e pre)
  case 0
  then show ?case by simp
next
  case (Suc n)
  show ?case
  proof (cases e)
    case None
    then show ?thesis using Suc.prems(1) by simp
  next
    case (Some y)
    show ?thesis
    proof (cases y)
      case (Wrapped v)
      then obtain ys where xs: "Wrapped v # ys = pre @ Wrapped x # post"
        using Some Suc.prems(1) by auto
      have "pre = []"
      proof (cases pre)
        case Nil then show ?thesis .
      next
        case (Cons a pre')
        then have "a = Wrapped v" using xs by simp
        moreover have "quiet env a" using Cons Suc.prems(2) by simp
        ultimately show ?thesis by simp
      qed
      then have "preorder (Suc n) env (Some (Wrapped x)) = Some (Wrapped x # post)"
        using xs Some Wrapped Suc.prems(1) by auto
      then show ?thesis by blast
    next
      case (Foreign p)
      note e = Some Foreign
      obtain pre' where pre: "pre = Foreign p # pre'"
        using e Suc.prems(1)
        by (cases pre) (auto split: unwrap_method.splits sum.splits)
      then have link: "chain_link env (Foreign p)" using Suc.prems(2) by simp
      then obtain e' where u: "funwrap (env p) = Single (Inr e')"
        using e pre Suc.prems(1) by (auto split: unwrap_method.splits sum.splits)
      then have ys: "preorder n env e' = Some (pre' @ Wrapped x # post)"
        using e pre Suc.prems(1) by auto
      have "\<forall>y\<in>set pre'. quiet env y \<and> chain_link env y" using pre Suc.prems(2) by simp
      from Suc.IH[OF ys this] obtain m where "m \<le> n"
        "preorder m env (Some (Wrapped x)) = Some (Wrapped x # post)" by blast
      then show ?thesis by (intro exI[of _ m]) simp
    qed
  qed
qed

lemma Dig_chain_last:
  "preorder n env (Some (Wrapped w)) = Some xs \<Longrightarrow> \<forall>x\<in>set xs. chain_link env x \<Longrightarrow>
   last (filter is_Wrapped xs) = Wrapped w' \<Longrightarrow> Dig env w = Some (Inr w')"
proof (induction n arbitrary: w xs rule: less_induct)
  case (less n)
  then obtain k where n: "n = Suc k" by (cases n) simp_all
  obtain ys where ys: "preorder k env (Err w) = Some ys" and xs: "xs = Wrapped w # ys"
    using less.prems(1) n by (auto simp add: Unwrap_def)
  have as: "errors_As env (Err w) = Some (decide env ys)" using ys by (rule errors_As_decide)
  have links: "\<forall>x\<in>set ys. chain_link env x" using less.prems(2) xs by simp
  then have calm: "\<forall>x\<in>set ys. is_Wrapped x \<or> quiet env x" using chain_link_calm by blast
  from decide_calm[OF calm] consider
    (none) "decide env ys = Inr None" "\<forall>x\<in>set ys. quiet env x"
    | (found) pre v post where "ys = pre @ Wrapped v # post" "\<forall>x\<in>set pre. quiet env x"
        "decide env ys = Inr (Some v)"
    by blast
  then show ?case
  proof cases
    case none
    then have "filter is_Wrapped ys = []" using quiet_not_Wrapped by (auto simp add: filter_empty_conv)
    then have "w' = w" using less.prems(3) xs by simp
    then show ?thesis using as none(1) by (simp add: Dig_not_found)
  next
    case found
    have dig: "Dig env w = Dig env v" using as found(3) by (simp add: Dig_found)
    have pre: "\<forall>y\<in>set pre. quiet env y \<and> chain_link env y" using found(1,2) links by simp
    from preorder_chain_suffix[OF ys[unfolded found(1)] pre] obtain m where m: "m \<le> k"
      and zs: "preorder m env (Some (Wrapped v)) = Some (Wrapped v # post)" by blast
    have "filter is_Wrapped pre = []"
      using found(2) quiet_not_Wrapped by (auto simp add: filter_empty_conv)
    then have "last (filter is_Wrapped (Wrapped v # post)) = Wrapped w'"
      using less.prems(3) xs found(1) by simp
    moreover have "\<forall>x\<in>set (Wrapped v # post). chain_link env x" using links found(1) by simp
    moreover have "m < n" using m n by simp
    ultimately have "Dig env v = Some (Inr w')" using less.IH zs by blast
    then show ?thesis using dig by simp
  qed
qed

section \<open>Runs that never return\<close>

lemma errors_as_self_loop:
  assumes no_as: "fas (env p) = Inr None"
    and loop: "funwrap (env p) = Single (Inr (Some (Foreign p)))"
  shows "errors_as env (Inl (Foreign p)) = None"
proof (cases "errors_as env (Inl (Foreign p))")
  case None
  then show ?thesis .
next
  case (Some y)
  have "env' = env \<longrightarrow> x = Inl (Foreign p) \<longrightarrow> False"
    if ret: "errors_as env' x = Some y'" for env' x y'
  proof (rule errors_as.raw_induct[where P = "\<lambda>env' x y'. env' = env \<longrightarrow> x = Inl (Foreign p) \<longrightarrow> False", OF _ ret])
    fix f :: "fenv \<Rightarrow> error + error option list \<Rightarrow> (panic + ErrorWrapper option) option"
      and env' x y'
    assume IH: "\<And>env' x y'. f env' x = Some y' \<Longrightarrow> env' = env \<longrightarrow> x = Inl (Foreign p) \<longrightarrow> False"
      and step: "(case x of
        Inl err \<Rightarrow>
          (case err of
             Wrapped w \<Rightarrow> Some (Inr (Some w))
           | Foreign p \<Rightarrow>
               (case fas (env' p) of
                  Inl pn \<Rightarrow> Some (Inl pn)
                | Inr (Some w) \<Rightarrow> Some (Inr (Some w))
                | Inr None \<Rightarrow>
                    (case funwrap (env' p) of
                       Single (Inl pn) \<Rightarrow> Some (Inl pn)
                     | Single (Inr None) \<Rightarrow> Some (Inr None)
                     | Single (Inr (Some err')) \<Rightarrow> f env' (Inl err')
                     | Multi (Inl pn) \<Rightarrow> Some (Inl pn)
                     | Multi (Inr errs) \<Rightarrow> f env' (Inr errs)
                     | NoUnwrap \<Rightarrow> Some (Inr None))))
      | Inr errs \<Rightarrow>
          (case errs of
             [] \<Rightarrow> Some (Inr None)
           | None # rest \<Rightarrow> f env' (Inr rest)
           | Some err # rest \<Rightarrow>
               Option.bind (f env' (Inl err))
                 (\<lambda>r. case r of
                        Inr None \<Rightarrow> f env' (Inr rest)
                      | _ \<Rightarrow> Some r))) = Some y'"
    show "env' = env \<longrightarrow> x = Inl (Foreign p) \<longrightarrow> False"
    proof (intro impI)
      assume "env' = env" and "x = Inl (Foreign p)"
      with step no_as loop have "f env (Inl (Foreign p)) = Some y'" by simp
      with IH show False by blast
    qed
  qed
  with Some show ?thesis by blast
qed

lemma Dig_self_loop:
  assumes "Err w = Some (Foreign p)" and "fas (env p) = Inr None"
    and "funwrap (env p) = Single (Inr (Some (Foreign p)))"
  shows "Dig env w = None"
  using assms by (simp add: Dig_diverges errors_As_Some errors_as_self_loop)

text \<open>
  A finite tree is not enough when a foreign error answers \<open>As\<close> itself: if the cause
  stores the wrapper that holds it, \<open>Dig\<close> calls itself on the same wrapper without end.
\<close>

lemma Dig_as_loop:
  assumes cause: "Err w = Some (Foreign p)" and claim: "fas (env p) = Inr (Some w)"
  shows "Dig env w = None"
proof (cases "Dig env w")
  case None
  then show ?thesis .
next
  case (Some y)
  have as: "errors_As env (Err w) = Some (Inr (Some w))"
    using cause claim by (simp add: errors_As_Some errors_as_Foreign)
  have "env' = env \<longrightarrow> v = w \<longrightarrow> False" if ret: "Dig env' v = Some y'" for env' v y'
  proof (rule Dig.raw_induct[where P = "\<lambda>env' v y'. env' = env \<longrightarrow> v = w \<longrightarrow> False", OF _ ret])
    fix f :: "fenv \<Rightarrow> ErrorWrapper \<Rightarrow> (panic + ErrorWrapper) option" and env' v y'
    assume IH: "\<And>env' v y'. f env' v = Some y' \<Longrightarrow> env' = env \<longrightarrow> v = w \<longrightarrow> False"
      and step: "(case errors_As env' (Err v) of
                    None \<Rightarrow> None
                  | Some (Inl pn) \<Rightarrow> Some (Inl pn)
                  | Some (Inr (Some ew)) \<Rightarrow> f env' ew
                  | Some (Inr None) \<Rightarrow> Some (Inr v)) = Some y'"
    show "env' = env \<longrightarrow> v = w \<longrightarrow> False"
    proof (intro impI)
      assume "env' = env" and "v = w"
      with step as have "f env w = Some y'" by simp
      with IH show False by blast
    qed
  qed
  with Some show ?thesis by blast
qed

section \<open>Error\<close>

lemma Error_panic_is_foreign:
  "Error env w = Inl x \<Longrightarrow> \<exists>p. ferror (env p) = Inl x"
proof -
  have "\<forall>x. Error env w = Inl x \<longrightarrow> (\<exists>p. ferror (env p) = Inl x)"
    and "e \<noteq> None \<longrightarrow> (\<forall>x. error_Error env e = Inl x \<longrightarrow> (\<exists>p. ferror (env p) = Inl x))"
    for w e
    by (induction env w and env e rule: Error_error_Error.induct) auto
  then show "Error env w = Inl x \<Longrightarrow> \<exists>p. ferror (env p) = Inl x" by blast
qed

section \<open>The example values evaluated\<close>

lemma env_ex_simps:
  "env_ex 0 = \<lparr>ferror = Inr ''boom'', fas = Inr None, funwrap = NoUnwrap\<rparr>"
  "env_ex 1 = \<lparr>ferror = Inr ''ctx: user not found'', fas = Inr None,
               funwrap = Single (Inr (Some (Wrapped leaf)))\<rparr>"
  "env_ex (Suc 0) = \<lparr>ferror = Inr ''ctx: user not found'', fas = Inr None,
               funwrap = Single (Inr (Some (Wrapped leaf)))\<rparr>"
  "env_ex 2 = \<lparr>ferror = Inr ''loop'', fas = Inr None, funwrap = Single (Inr (Some (Foreign 2)))\<rparr>"
  "env_ex 3 = \<lparr>ferror = Inr ''retry: ctx: user not found'', fas = Inr None,
               funwrap = Single (Inr (Some (Foreign 1)))\<rparr>"
  "env_ex 4 = \<lparr>ferror = Inr (''boom'' @ CHR 0x0A # ''user not found''), fas = Inr None,
               funwrap = Multi (Inr [Some (Foreign 0), Some (Wrapped leaf)])\<rparr>"
  "env_ex 5 = \<lparr>ferror = Inl nil_pointer_panic, fas = Inr None,
               funwrap = Single (Inl nil_pointer_panic)\<rparr>"
  "env_ex 6 = \<lparr>ferror = Inr ''adapter'', fas = Inr (Some leaf), funwrap = NoUnwrap\<rparr>"
  "env_ex 7 = \<lparr>ferror = Inr ''adapter'', fas = Inr (Some over_adapter), funwrap = NoUnwrap\<rparr>"
  by (simp_all add: env_ex_def)

lemma preorder_numeral:
  "preorder (numeral k) env e = preorder (Suc (pred_numeral k)) env e"
  by (simp add: numeral_eq_Suc)

lemma preorder_examples:
  "preorder 1 env_ex None = Some []"
  "preorder 2 env_ex (Some (Wrapped leaf)) = Some [Wrapped leaf]"
  "preorder 2 env_ex (Some (Foreign 0)) = Some [Foreign 0]"
  "preorder 3 env_ex (Some (Foreign 1)) = Some [Foreign 1, Wrapped leaf]"
  "preorder 4 env_ex (Some (Foreign 3)) = Some [Foreign 3, Foreign 1, Wrapped leaf]"
  "preorder 3 env_ex (Some (Foreign 4)) = Some [Foreign 4, Foreign 0, Wrapped leaf]"
  "preorder 1 env_ex (Some (Foreign 5)) = Some [Foreign 5]"
  "preorder 4 env_ex (Some (Wrapped outer)) = Some [Wrapped outer, Wrapped mid, Wrapped leaf]"
  "preorder 5 env_ex (Some (Wrapped over_retry))
     = Some [Wrapped over_retry, Foreign 3, Foreign 1, Wrapped leaf]"
  by (simp_all add: preorder_numeral env_ex_simps Unwrap_def leaf_def mid_def outer_def
        over_retry_def del: Suc_numeral)

lemma quiet_examples:
  "quiet env_ex (Foreign 0)" "quiet env_ex (Foreign 1)" "quiet env_ex (Foreign 3)"
  "quiet env_ex (Foreign 4)"
  by (simp_all add: env_ex_simps)

lemma Dig_over_adapter: "Dig env_ex over_adapter = None"
proof (rule Dig_as_loop)
  show "Err over_adapter = Some (Foreign 7)" by (simp add: over_adapter_def)
  show "fas (env_ex 7) = Inr (Some over_adapter)" by (simp add: env_ex_simps)
qed

section \<open>What Dig returns\<close>

lemma Dig_leaf: "Dig env leaf = Some (Inr leaf)"
  by (simp add: Dig_no_cause leaf_def)

text \<open>
  C5 (amended). \<open>Dig\<close> on a wrapper with no cause returns the wrapper itself. On a
  wrapper whose cause is a foreign error it returns the wrapper itself when the unwrap
  tree of the cause is finite and holds quiet foreign errors only (no wrapper below
  the cause, through \<open>Unwrap() error\<close> or \<open>Unwrap() []error\<close>); when the walk of the
  cause reaches a wrapper past quiet errors only, \<open>Dig\<close> goes on from that wrapper. On
  a finite chain \<open>Dig\<close> returns the last wrapper of the chain; on a chain of three
  wrappers that is the innermost.
\<close>
theorem Dig_innermost_wrapper:
  "(Err w = None \<longrightarrow> Dig env w = Some (Inr w)) \<and>
   (preorder n env (Err w) = Some xs \<and> (\<forall>x\<in>set xs. quiet env x) \<longrightarrow>
      Dig env w = Some (Inr w)) \<and>
   (preorder n env (Err w) = Some (pre @ Wrapped x # post) \<and> (\<forall>y\<in>set pre. quiet env y) \<longrightarrow>
      Dig env w = Dig env x) \<and>
   (preorder n env (Some (Wrapped w)) = Some ys \<and> (\<forall>y\<in>set ys. chain_link env y) \<and>
      last (filter is_Wrapped ys) = Wrapped w' \<longrightarrow> Dig env w = Some (Inr w')) \<and>
   Dig env (ErrorWrapper a1 m1 p1 c1 (Some (Wrapped
             (ErrorWrapper a2 m2 p2 c2 (Some (Wrapped (ErrorWrapper a3 m3 p3 c3 None)))))))
     = Some (Inr (ErrorWrapper a3 m3 p3 c3 None))"
proof (intro conjI impI)
  assume "Err w = None"
  then show "Dig env w = Some (Inr w)" by (rule Dig_no_cause)
next
  assume a: "preorder n env (Err w) = Some xs \<and> (\<forall>x\<in>set xs. quiet env x)"
  then have "errors_As env (Err w) = Some (decide env xs)"
    using errors_As_decide[of n env "Err w" xs] by blast
  then have "errors_As env (Err w) = Some (Inr None)" using a by (simp add: decide_all_quiet)
  then show "Dig env w = Some (Inr w)" by (rule Dig_not_found)
next
  assume a: "preorder n env (Err w) = Some (pre @ Wrapped x # post) \<and>
             (\<forall>y\<in>set pre. quiet env y)"
  then have "errors_As env (Err w) = Some (decide env (pre @ Wrapped x # post))"
    using errors_As_decide[of n env "Err w" "pre @ Wrapped x # post"] by blast
  then have "errors_As env (Err w) = Some (Inr (Some x))"
    using a by (simp add: decide_first_wrapper)
  then show "Dig env w = Dig env x" by (rule Dig_found)
next
  assume "preorder n env (Some (Wrapped w)) = Some ys \<and> (\<forall>y\<in>set ys. chain_link env y) \<and>
      last (filter is_Wrapped ys) = Wrapped w'"
  then show "Dig env w = Some (Inr w')" using Dig_chain_last[of n env w ys w'] by blast
next
  let ?w3 = "ErrorWrapper a3 m3 p3 c3 None"
  let ?w2 = "ErrorWrapper a2 m2 p2 c2 (Some (Wrapped ?w3))"
  let ?w1 = "ErrorWrapper a1 m1 p1 c1 (Some (Wrapped ?w2))"
  have "Dig env ?w1 = Dig env ?w2"
    by (rule Dig_found) (simp add: errors_As_Some errors_as_Wrapped)
  also have "\<dots> = Dig env ?w3"
    by (rule Dig_found) (simp add: errors_As_Some errors_as_Wrapped)
  also have "\<dots> = Some (Inr ?w3)" by (rule Dig_no_cause) simp
  finally show "Dig env ?w1 = Some (Inr ?w3)" .
qed

theorem Dig_innermost_wrapper_witness:
  "Err leaf = None \<and> Dig env_ex leaf = Some (Inr leaf) \<and>
   preorder 2 env_ex (Err over_plain) = Some [Foreign 0] \<and> quiet env_ex (Foreign 0) \<and>
   Dig env_ex over_plain = Some (Inr over_plain) \<and>
   preorder 3 env_ex (Err over_join) = Some ([Foreign 4, Foreign 0] @ Wrapped leaf # []) \<and>
   quiet env_ex (Foreign 4) \<and>
   Dig env_ex over_join = Dig env_ex leaf \<and>
   preorder 4 env_ex (Some (Wrapped outer)) = Some [Wrapped outer, Wrapped mid, Wrapped leaf] \<and>
   chain_link env_ex (Wrapped outer) \<and> chain_link env_ex (Wrapped mid) \<and>
   chain_link env_ex (Wrapped leaf) \<and>
   last (filter is_Wrapped [Wrapped outer, Wrapped mid, Wrapped leaf]) = Wrapped leaf \<and>
   Dig env_ex outer = Some (Inr leaf)"
proof -
  note T = Dig_innermost_wrapper
  have h1: "Err leaf = None" by (simp add: leaf_def)
  have p2: "preorder 2 env_ex (Err over_plain) = Some [Foreign 0]"
    by (simp add: over_plain_def preorder_examples)
  have q0: "quiet env_ex (Foreign 0)" and q4: "quiet env_ex (Foreign 4)"
    by (rule quiet_examples)+
  have h2: "preorder 2 env_ex (Err over_plain) = Some [Foreign 0] \<and>
            (\<forall>x\<in>set [Foreign 0]. quiet env_ex x)"
    using p2 q0 by simp
  have p3: "preorder 3 env_ex (Err over_join) = Some ([Foreign 4, Foreign 0] @ Wrapped leaf # [])"
    by (simp add: over_join_def preorder_examples)
  have h3: "preorder 3 env_ex (Err over_join) = Some ([Foreign 4, Foreign 0] @ Wrapped leaf # []) \<and>
            (\<forall>y\<in>set [Foreign 4, Foreign 0]. quiet env_ex y)"
    using p3 q0 q4 by simp
  have p4: "preorder 4 env_ex (Some (Wrapped outer))
              = Some [Wrapped outer, Wrapped mid, Wrapped leaf]"
    by (rule preorder_examples)
  have l: "chain_link env_ex (Wrapped outer)" "chain_link env_ex (Wrapped mid)"
    "chain_link env_ex (Wrapped leaf)" by simp_all
  have f: "last (filter is_Wrapped [Wrapped outer, Wrapped mid, Wrapped leaf]) = Wrapped leaf"
    by simp
  have h4: "preorder 4 env_ex (Some (Wrapped outer))
              = Some [Wrapped outer, Wrapped mid, Wrapped leaf] \<and>
            (\<forall>y\<in>set [Wrapped outer, Wrapped mid, Wrapped leaf]. chain_link env_ex y) \<and>
            last (filter is_Wrapped [Wrapped outer, Wrapped mid, Wrapped leaf]) = Wrapped leaf"
    using p4 by simp
  have c1: "Dig env_ex leaf = Some (Inr leaf)"
    using T[where w = leaf and env = env_ex, THEN conjunct1] h1 by (rule mp)
  have c2: "Dig env_ex over_plain = Some (Inr over_plain)"
    using T[where w = over_plain and env = env_ex and n = 2 and xs = "[Foreign 0]",
            THEN conjunct2, THEN conjunct1] h2 by (rule mp)
  have c3: "Dig env_ex over_join = Dig env_ex leaf"
    using T[where w = over_join and env = env_ex and n = 3 and pre = "[Foreign 4, Foreign 0]"
              and x = leaf and post = "[]",
            THEN conjunct2, THEN conjunct2, THEN conjunct1] h3 by (rule mp)
  have c4: "Dig env_ex outer = Some (Inr leaf)"
    using T[where w = outer and env = env_ex and n = 4
              and ys = "[Wrapped outer, Wrapped mid, Wrapped leaf]" and w' = leaf,
            THEN conjunct2, THEN conjunct2, THEN conjunct2, THEN conjunct1] h4 by (rule mp)
  show ?thesis by (intro conjI) (rule h1 c1 p2 q0 c2 p3 q4 c3 p4 l f c4)+
qed

text \<open>
  The claim as first stated fails: \<open>over_ctx\<close> has a foreign cause, and the foreign cause
  wraps \<open>leaf\<close>; \<open>errors.As\<close> walks through the foreign error, so \<open>Dig\<close> returns \<open>leaf\<close> and
  not \<open>over_ctx\<close>.
\<close>

theorem Dig_foreign_cause_counterexample:
  "Err over_ctx = Some (Foreign 1) \<and> Dig env_ex over_ctx = Some (Inr leaf) \<and>
   Dig env_ex over_ctx \<noteq> Some (Inr over_ctx)"
proof -
  have "errors_As env_ex (Err over_ctx) = Some (Inr (Some leaf))"
    by (simp add: over_ctx_def errors_As_Some errors_as_Foreign errors_as_Wrapped env_ex_simps)
  then have "Dig env_ex over_ctx = Some (Inr leaf)" by (simp add: Dig_found Dig_leaf)
  then show ?thesis by (simp add: over_ctx_def leaf_def)
qed

section \<open>Termination of Dig\<close>

text \<open>
  C8 (amended). \<open>Dig\<close> returns, with a wrapper of the tree, on every wrapper whose
  unwrap tree is finite and holds wrappers and quiet foreign errors only. In the
  terminal cases it returns the wrapper itself: no cause at all, and a cause whose
  finite tree holds quiet foreign errors only. Nothing in the code checks for a cycle:
  on a wrapper whose cause unwraps to itself \<open>Dig\<close> never returns.
\<close>
theorem Dig_terminates:
  "(preorder n env (Some (Wrapped w)) = Some xs \<and> (\<forall>x\<in>set xs. is_Wrapped x \<or> quiet env x) \<longrightarrow>
      (\<exists>w'. Dig env w = Some (Inr w') \<and> Wrapped w' \<in> set xs)) \<and>
   (Err w = None \<longrightarrow> Dig env w = Some (Inr w)) \<and>
   (preorder n env (Err w) = Some ys \<and> (\<forall>y\<in>set ys. quiet env y) \<longrightarrow>
      Dig env w = Some (Inr w)) \<and>
   (Err w = Some (Foreign p) \<and> fas (env p) = Inr None \<and>
      funwrap (env p) = Single (Inr (Some (Foreign p))) \<longrightarrow> Dig env w = None)"
proof (intro conjI impI)
  assume "preorder n env (Some (Wrapped w)) = Some xs \<and>
          (\<forall>x\<in>set xs. is_Wrapped x \<or> quiet env x)"
  then show "\<exists>w'. Dig env w = Some (Inr w') \<and> Wrapped w' \<in> set xs"
    using Dig_returns[of n env w xs] by blast
next
  assume "Err w = None"
  then show "Dig env w = Some (Inr w)" by (rule Dig_no_cause)
next
  assume a: "preorder n env (Err w) = Some ys \<and> (\<forall>y\<in>set ys. quiet env y)"
  then have "errors_As env (Err w) = Some (decide env ys)"
    using errors_As_decide[of n env "Err w" ys] by blast
  then have "errors_As env (Err w) = Some (Inr None)" using a by (simp add: decide_all_quiet)
  then show "Dig env w = Some (Inr w)" by (rule Dig_not_found)
next
  assume "Err w = Some (Foreign p) \<and> fas (env p) = Inr None \<and>
      funwrap (env p) = Single (Inr (Some (Foreign p)))"
  then show "Dig env w = None" using Dig_self_loop[of w p env] by blast
qed

theorem Dig_terminates_witness:
  "preorder 5 env_ex (Some (Wrapped over_retry))
     = Some [Wrapped over_retry, Foreign 3, Foreign 1, Wrapped leaf] \<and>
   is_Wrapped (Wrapped over_retry) \<and> quiet env_ex (Foreign 3) \<and> quiet env_ex (Foreign 1) \<and>
   is_Wrapped (Wrapped leaf) \<and>
   (\<exists>w'. Dig env_ex over_retry = Some (Inr w') \<and>
         Wrapped w' \<in> set [Wrapped over_retry, Foreign 3, Foreign 1, Wrapped leaf]) \<and>
   Err leaf = None \<and> Dig env_ex leaf = Some (Inr leaf) \<and>
   preorder 2 env_ex (Err over_plain) = Some [Foreign 0] \<and> quiet env_ex (Foreign 0) \<and>
   Dig env_ex over_plain = Some (Inr over_plain) \<and>
   Err over_loop = Some (Foreign 2) \<and> fas (env_ex 2) = Inr None \<and>
   funwrap (env_ex 2) = Single (Inr (Some (Foreign 2))) \<and>
   Dig env_ex over_loop = None"
proof -
  note T = Dig_terminates
  have p1: "preorder 5 env_ex (Some (Wrapped over_retry))
     = Some [Wrapped over_retry, Foreign 3, Foreign 1, Wrapped leaf]"
    by (rule preorder_examples)
  have q: "is_Wrapped (Wrapped over_retry)" "quiet env_ex (Foreign 3)" "quiet env_ex (Foreign 1)"
    "is_Wrapped (Wrapped leaf)" "quiet env_ex (Foreign 0)"
    by (simp_all add: env_ex_simps)
  have h1: "preorder 5 env_ex (Some (Wrapped over_retry))
              = Some [Wrapped over_retry, Foreign 3, Foreign 1, Wrapped leaf] \<and>
            (\<forall>x\<in>set [Wrapped over_retry, Foreign 3, Foreign 1, Wrapped leaf].
               is_Wrapped x \<or> quiet env_ex x)"
    using p1 q by simp
  have h2: "Err leaf = None" by (simp add: leaf_def)
  have p3: "preorder 2 env_ex (Err over_plain) = Some [Foreign 0]"
    by (simp add: over_plain_def preorder_examples)
  have h3: "preorder 2 env_ex (Err over_plain) = Some [Foreign 0] \<and>
            (\<forall>y\<in>set [Foreign 0]. quiet env_ex y)"
    using p3 q by simp
  have l: "Err over_loop = Some (Foreign 2)" "fas (env_ex 2) = Inr None"
    "funwrap (env_ex 2) = Single (Inr (Some (Foreign 2)))"
    by (simp_all add: over_loop_def env_ex_simps)
  have c1: "\<exists>w'. Dig env_ex over_retry = Some (Inr w') \<and>
         Wrapped w' \<in> set [Wrapped over_retry, Foreign 3, Foreign 1, Wrapped leaf]"
    using T[where w = over_retry and env = env_ex and n = 5
              and xs = "[Wrapped over_retry, Foreign 3, Foreign 1, Wrapped leaf]",
            THEN conjunct1] h1 by (rule mp)
  have c2: "Dig env_ex leaf = Some (Inr leaf)"
    using T[where w = leaf and env = env_ex, THEN conjunct2, THEN conjunct1] h2 by (rule mp)
  have c3: "Dig env_ex over_plain = Some (Inr over_plain)"
    using T[where w = over_plain and env = env_ex and n = 2 and ys = "[Foreign 0]",
            THEN conjunct2, THEN conjunct2, THEN conjunct1] h3 by (rule mp)
  have c4: "Dig env_ex over_loop = None"
    using T[where w = over_loop and env = env_ex and p = 2,
            THEN conjunct2, THEN conjunct2, THEN conjunct2] l by blast
  show ?thesis by (intro conjI) (rule p1 q c1 h2 c2 p3 c3 l c4)+
qed

text \<open>
  The claim as first stated counts every cause that is not a wrapper as a terminal case
  that returns the receiver. \<open>over_retry\<close> has a finite chain and a cause that is not a
  wrapper, and \<open>Dig\<close> returns \<open>leaf\<close>, found two steps below the cause.
\<close>

theorem Dig_terminal_case_counterexample:
  "Err over_retry = Some (Foreign 3) \<and> \<not> is_Wrapped (Foreign 3) \<and>
   preorder 5 env_ex (Some (Wrapped over_retry))
     = Some [Wrapped over_retry, Foreign 3, Foreign 1, Wrapped leaf] \<and>
   Dig env_ex over_retry = Some (Inr leaf) \<and> leaf \<noteq> over_retry"
proof -
  have "errors_As env_ex (Err over_retry) = Some (Inr (Some leaf))"
    by (simp add: over_retry_def errors_As_Some errors_as_Foreign errors_as_Wrapped env_ex_simps)
  then have "Dig env_ex over_retry = Some (Inr leaf)" by (simp add: Dig_found Dig_leaf)
  then show ?thesis by (simp add: preorder_examples) (simp add: over_retry_def leaf_def)
qed

section \<open>DecodeError\<close>

lemma DecodeError_nil: "DecodeError env None = Some (Inl NilDereference)"
  by (simp add: DecodeError_def errors_As_nil)

lemma DecodeError_self_loop:
  "fas (env p) = Inr None \<Longrightarrow> funwrap (env p) = Single (Inr (Some (Foreign p))) \<Longrightarrow>
   DecodeError env (Some (Foreign p)) = None"
  by (simp add: DecodeError_def errors_As_Some errors_as_self_loop)

text \<open>
  C1 (amended). For every non-nil error \<open>e\<close> whose unwrap tree is finite: if the walk
  of the tree reaches a wrapper past quiet foreign errors only, \<open>DecodeError\<close> returns
  that wrapper, the first of the walk, as it is (the value returned is the value in the
  tree, so all five fields are kept); so when the tree holds wrappers and quiet foreign
  errors only and a wrapper occurs in it, a wrapper of the tree is returned. If the tree
  holds quiet foreign errors only and \<open>e.Error()\<close> returns a string, \<open>DecodeError\<close>
  returns the wrapper with action \<open>generic\<close>, that string as message, nil payload, code
  500 and cause \<open>e\<close>. If the first error of the walk that is not quiet answers \<open>As\<close> with
  a wrapper, that wrapper is returned.
\<close>
theorem DecodeError_wrapper_or_generic:
  "(preorder n env (Some e) = Some (pre @ Wrapped w # post) \<and> (\<forall>x\<in>set pre. quiet env x) \<longrightarrow>
      DecodeError env (Some e) = Some (Inr w)) \<and>
   (preorder n env (Some e) = Some xs \<and> (\<forall>x\<in>set xs. is_Wrapped x \<or> quiet env x) \<and>
      Wrapped w \<in> set xs \<longrightarrow>
      (\<exists>w'. Wrapped w' \<in> set xs \<and> DecodeError env (Some e) = Some (Inr w'))) \<and>
   (preorder n env (Some e) = Some xs \<and> (\<forall>x\<in>set xs. quiet env x) \<and>
      error_Error env (Some e) = Inr s \<longrightarrow>
      DecodeError env (Some e) = Some (Inr (ErrorWrapper ''generic'' s None 500 (Some e)))) \<and>
   (preorder n env (Some e) = Some (pre @ Foreign p # post) \<and> (\<forall>x\<in>set pre. quiet env x) \<and>
      fas (env p) = Inr (Some w) \<longrightarrow>
      DecodeError env (Some e) = Some (Inr w))"
proof (intro conjI impI)
  assume a: "preorder n env (Some e) = Some (pre @ Wrapped w # post) \<and>
             (\<forall>x\<in>set pre. quiet env x)"
  then have "errors_As env (Some e) = Some (decide env (pre @ Wrapped w # post))"
    using errors_As_decide[of n env "Some e" "pre @ Wrapped w # post"] by blast
  then have "errors_As env (Some e) = Some (Inr (Some w))"
    using a by (simp add: decide_first_wrapper)
  then show "DecodeError env (Some e) = Some (Inr w)" by (simp add: DecodeError_def)
next
  assume a: "preorder n env (Some e) = Some xs \<and> (\<forall>x\<in>set xs. is_Wrapped x \<or> quiet env x) \<and>
      Wrapped w \<in> set xs"
  then have as: "errors_As env (Some e) = Some (decide env xs)"
    using errors_As_decide[of n env "Some e" xs] by blast
  have calm: "\<forall>x\<in>set xs. is_Wrapped x \<or> quiet env x" using a by blast
  from decide_calm[OF calm] consider
    (none) "\<forall>x\<in>set xs. quiet env x"
    | (found) pre v post where "xs = pre @ Wrapped v # post" "decide env xs = Inr (Some v)"
    by blast
  then show "\<exists>w'. Wrapped w' \<in> set xs \<and> DecodeError env (Some e) = Some (Inr w')"
  proof cases
    case none
    then have "quiet env (Wrapped w)" using a by blast
    then show ?thesis by simp
  next
    case found
    then have "DecodeError env (Some e) = Some (Inr v)" using as by (simp add: DecodeError_def)
    moreover have "Wrapped v \<in> set xs" using found(1) by simp
    ultimately show ?thesis by blast
  qed
next
  assume a: "preorder n env (Some e) = Some xs \<and> (\<forall>x\<in>set xs. quiet env x) \<and>
      error_Error env (Some e) = Inr s"
  then have "errors_As env (Some e) = Some (decide env xs)"
    using errors_As_decide[of n env "Some e" xs] by blast
  then have "errors_As env (Some e) = Some (Inr None)" using a by (simp add: decide_all_quiet)
  then show "DecodeError env (Some e)
               = Some (Inr (ErrorWrapper ''generic'' s None 500 (Some e)))"
    using a by (simp add: DecodeError_def StatusInternalServerError_def)
next
  assume a: "preorder n env (Some e) = Some (pre @ Foreign p # post) \<and>
             (\<forall>x\<in>set pre. quiet env x) \<and> fas (env p) = Inr (Some w)"
  then have "errors_As env (Some e) = Some (decide env (pre @ Foreign p # post))"
    using errors_As_decide[of n env "Some e" "pre @ Foreign p # post"] by blast
  moreover have "decide env (pre @ Foreign p # post) = Inr (Some w)"
    using a by (simp add: decide_quiet_prefix)
  ultimately show "DecodeError env (Some e) = Some (Inr w)" by (simp add: DecodeError_def)
qed

theorem DecodeError_wrapper_or_generic_witness:
  "preorder 3 env_ex (Some (Foreign 4)) = Some ([Foreign 4, Foreign 0] @ Wrapped leaf # []) \<and>
   quiet env_ex (Foreign 4) \<and> quiet env_ex (Foreign 0) \<and>
   DecodeError env_ex (Some (Foreign 4)) = Some (Inr leaf) \<and>
   preorder 4 env_ex (Some (Foreign 3)) = Some [Foreign 3, Foreign 1, Wrapped leaf] \<and>
   quiet env_ex (Foreign 3) \<and> quiet env_ex (Foreign 1) \<and> is_Wrapped (Wrapped leaf) \<and>
   Wrapped leaf \<in> set [Foreign 3, Foreign 1, Wrapped leaf] \<and>
   (\<exists>w'. Wrapped w' \<in> set [Foreign 3, Foreign 1, Wrapped leaf] \<and>
         DecodeError env_ex (Some (Foreign 3)) = Some (Inr w')) \<and>
   preorder 2 env_ex (Some (Foreign 0)) = Some [Foreign 0] \<and>
   error_Error env_ex (Some (Foreign 0)) = Inr ''boom'' \<and>
   DecodeError env_ex (Some (Foreign 0))
     = Some (Inr (ErrorWrapper ''generic'' ''boom'' None 500 (Some (Foreign 0)))) \<and>
   preorder 1 env_ex (Some (Foreign 6)) = Some ([] @ Foreign 6 # []) \<and>
   fas (env_ex 6) = Inr (Some leaf) \<and>
   DecodeError env_ex (Some (Foreign 6)) = Some (Inr leaf) \<and>
   preorder 4 env_ex (Some (Wrapped over_ctx)) = Some ([] @ Wrapped over_ctx # [Foreign 1, Wrapped leaf]) \<and>
   DecodeError env_ex (Some (Wrapped over_ctx)) = Some (Inr over_ctx) \<and>
   Code over_ctx = 403"
proof -
  note T = DecodeError_wrapper_or_generic
  have q: "quiet env_ex (Foreign 4)" "quiet env_ex (Foreign 0)" "quiet env_ex (Foreign 3)"
    "quiet env_ex (Foreign 1)" "is_Wrapped (Wrapped leaf)"
    by (simp_all add: env_ex_simps)
  have p1: "preorder 3 env_ex (Some (Foreign 4)) = Some ([Foreign 4, Foreign 0] @ Wrapped leaf # [])"
    by (simp add: preorder_examples)
  have h1: "preorder 3 env_ex (Some (Foreign 4)) = Some ([Foreign 4, Foreign 0] @ Wrapped leaf # []) \<and>
            (\<forall>x\<in>set [Foreign 4, Foreign 0]. quiet env_ex x)"
    using p1 q by simp
  have c1: "DecodeError env_ex (Some (Foreign 4)) = Some (Inr leaf)"
    using T[where env = env_ex and n = 3 and e = "Foreign 4" and pre = "[Foreign 4, Foreign 0]"
              and w = leaf and post = "[]", THEN conjunct1] h1 by (rule mp)
  have p2: "preorder 4 env_ex (Some (Foreign 3)) = Some [Foreign 3, Foreign 1, Wrapped leaf]"
    by (rule preorder_examples)
  have m2: "Wrapped leaf \<in> set [Foreign 3, Foreign 1, Wrapped leaf]" by simp
  have h2: "preorder 4 env_ex (Some (Foreign 3)) = Some [Foreign 3, Foreign 1, Wrapped leaf] \<and>
            (\<forall>x\<in>set [Foreign 3, Foreign 1, Wrapped leaf]. is_Wrapped x \<or> quiet env_ex x) \<and>
            Wrapped leaf \<in> set [Foreign 3, Foreign 1, Wrapped leaf]"
    using p2 q by simp
  have c2: "\<exists>w'. Wrapped w' \<in> set [Foreign 3, Foreign 1, Wrapped leaf] \<and>
         DecodeError env_ex (Some (Foreign 3)) = Some (Inr w')"
    using T[where env = env_ex and n = 4 and e = "Foreign 3"
              and xs = "[Foreign 3, Foreign 1, Wrapped leaf]" and w = leaf,
            THEN conjunct2, THEN conjunct1] h2 by (rule mp)
  have p3: "preorder 2 env_ex (Some (Foreign 0)) = Some [Foreign 0]"
    by (rule preorder_examples)
  have e3: "error_Error env_ex (Some (Foreign 0)) = Inr ''boom''"
    by (simp add: env_ex_simps)
  have h3: "preorder 2 env_ex (Some (Foreign 0)) = Some [Foreign 0] \<and>
            (\<forall>x\<in>set [Foreign 0]. quiet env_ex x) \<and>
            error_Error env_ex (Some (Foreign 0)) = Inr ''boom''"
    using p3 q e3 by simp
  have c3: "DecodeError env_ex (Some (Foreign 0))
     = Some (Inr (ErrorWrapper ''generic'' ''boom'' None 500 (Some (Foreign 0))))"
    using T[where env = env_ex and n = 2 and e = "Foreign 0" and xs = "[Foreign 0]"
              and s = "''boom''",
            THEN conjunct2, THEN conjunct2, THEN conjunct1] h3 by (rule mp)
  have p4: "preorder 1 env_ex (Some (Foreign 6)) = Some ([] @ Foreign 6 # [])"
    by (simp add: env_ex_simps)
  have a4: "fas (env_ex 6) = Inr (Some leaf)" by (simp add: env_ex_simps)
  have h4: "preorder 1 env_ex (Some (Foreign 6)) = Some ([] @ Foreign 6 # []) \<and>
            (\<forall>x\<in>set []. quiet env_ex x) \<and> fas (env_ex 6) = Inr (Some leaf)"
    using p4 a4 by simp
  have c4: "DecodeError env_ex (Some (Foreign 6)) = Some (Inr leaf)"
    using T[where env = env_ex and n = 1 and e = "Foreign 6" and pre = "[]" and p = 6
              and post = "[]" and w = leaf,
            THEN conjunct2, THEN conjunct2, THEN conjunct2] h4 by (rule mp)
  have p5: "preorder 4 env_ex (Some (Wrapped over_ctx))
              = Some ([] @ Wrapped over_ctx # [Foreign 1, Wrapped leaf])"
    by (simp add: preorder_numeral env_ex_simps Unwrap_def over_ctx_def leaf_def
             del: Suc_numeral)
  have h5: "preorder 4 env_ex (Some (Wrapped over_ctx))
              = Some ([] @ Wrapped over_ctx # [Foreign 1, Wrapped leaf]) \<and>
            (\<forall>x\<in>set []. quiet env_ex x)"
    using p5 by simp
  have c5: "DecodeError env_ex (Some (Wrapped over_ctx)) = Some (Inr over_ctx)"
    using T[where env = env_ex and n = 4 and e = "Wrapped over_ctx" and pre = "[]"
              and w = over_ctx and post = "[Foreign 1, Wrapped leaf]", THEN conjunct1] h5
    by (rule mp)
  have c6: "Code over_ctx = 403" by (simp add: over_ctx_def)
  show ?thesis by (intro conjI) (rule p1 q c1 p2 m2 c2 p3 e3 c3 p4 a4 c4 p5 c5 c6)+
qed

text \<open>
  The claim as first stated fails at the nil error: \<open>errors.As\<close> is false on nil, and the
  call \<open>err.Error()\<close> that builds the message of the generic wrapper panics. It fails
  too at the nil pointer \<open>(*ErrorWrapper)(nil)\<close>, a non-nil error: \<open>errors.As\<close> calls its
  \<open>Unwrap\<close> method, which panics.
\<close>

theorem DecodeError_nil_counterexample:
  "DecodeError env_ex None = Some (Inl NilDereference) \<and>
   DecodeError env_ex (Some (Foreign 5)) = Some (Inl nil_pointer_panic)"
  by (simp add: DecodeError_nil)
     (simp add: DecodeError_def errors_As_Some errors_as_Foreign env_ex_simps)

section \<open>fmt.Sprint\<close>

lemma digit_value_digit:
  assumes "d < 10"
  shows "digit_value (digit d) = d"
proof -
  from assms have "d = 0 \<or> d = 1 \<or> d = 2 \<or> d = 3 \<or> d = 4 \<or> d = 5 \<or> d = 6 \<or> d = 7
             \<or> d = 8 \<or> d = 9" by arith
  then show ?thesis by (elim disjE) (simp_all add: digit_def)
qed

lemma Atoi_fmt_nat: "Atoi_nat (fmt_nat n) = n"
proof (induction n rule: fmt_nat.induct)
  case (1 n)
  show ?case
  proof (cases "n < 10")
    case True
    then show ?thesis
      by (subst fmt_nat.simps)
         (simp add: Atoi_nat_def digit_value_digit del: digit_value.simps)
  next
    case False
    then have "Atoi_nat (fmt_nat (n div 10)) = n div 10" using 1 by simp
    then show ?thesis using False
      by (subst fmt_nat.simps)
         (simp add: Atoi_nat_def digit_value_digit del: digit_value.simps)
  qed
qed

lemma Sprint_404: "Sprint 404 = ''404''"
  by (simp add: Sprint_def fmt_nat.simps digit_def)

lemma Sprint_examples:
  "Sprint 400 = ''400''" "Sprint 422 = ''422''" "Sprint 504 = ''504''"
  "Sprint 0 = ''0''" "Sprint (- 17) = ''-17''"
  by (simp_all add: Sprint_def fmt_nat.simps digit_def)

section \<open>The constructors\<close>

lemma NewErrorWrapper_nil_payload:
  "NewErrorWrapper action message code err None h =
     (Some (Wrapped (ErrorWrapper action message (Some (next_addr h)) code err)),
      h\<lparr>cells := (cells h)(next_addr h := [''code'' \<mapsto> Sprint code, ''human_message'' \<mapsto> message]),
        next_addr := Suc (next_addr h)\<rparr>)"
  by (simp add: NewErrorWrapper_def alloc_def AddPayloadValues_def set_Payload_def)

lemma NewErrorWrapper_some_payload:
  "NewErrorWrapper action message code err (Some a) h =
     (Some (Wrapped (ErrorWrapper action message (Some a) code err)),
      h\<lparr>cells := (cells h)
           (next_addr h := [''code'' \<mapsto> Sprint code, ''human_message'' \<mapsto> message],
            a := (if a = next_addr h then [''code'' \<mapsto> Sprint code, ''human_message'' \<mapsto> message]
                  else cells h a) ++ [''code'' \<mapsto> Sprint code, ''human_message'' \<mapsto> message]),
        next_addr := Suc (next_addr h)\<rparr>)"
  by (simp add: NewErrorWrapper_def alloc_def AddPayloadValues_def map_assign_all_def)

lemma construct_eq:
  "construct c action message err payload h =
     NewErrorWrapper action message (documented_status c) err payload h"
  by (cases c)
     (simp_all add: NewErrorWrapper_def NewBadRequestError_def NewUnauthorizedError_def
        NewPaymentRequiredError_def NewForbiddenError_def NewNotFoundError_def
        NewUnprocessableEntityError_def NewInternalServerError_def NewNotImplementedError_def
        NewBadGatewayError_def NewServiceUnavailableError_def NewGatewayTimeoutError_def
        StatusBadRequest_def StatusUnauthorized_def StatusPaymentRequired_def
        StatusForbidden_def StatusNotFound_def StatusUnprocessableEntity_def
        StatusInternalServerError_def StatusNotImplemented_def StatusBadGateway_def
        StatusServiceUnavailable_def StatusGatewayTimeout_def)

lemma NewErrorWrapper_instance:
  "\<exists>a. as_wrapper (fst (NewErrorWrapper action message code err payload h))
         = Some (ErrorWrapper action message (Some a) code err) \<and>
       cells (snd (NewErrorWrapper action message code err payload h)) a ''code''
         = Some (Sprint code) \<and>
       cells (snd (NewErrorWrapper action message code err payload h)) a ''human_message''
         = Some message"
  by (cases payload)
     (simp_all add: NewErrorWrapper_nil_payload NewErrorWrapper_some_payload as_wrapper_def)

text \<open>
  C2. Every constructor, whatever payload map the caller passes, returns a wrapper
  whose payload maps \<open>code\<close> to the decimal string of the wrapper's status code and
  \<open>human_message\<close> to the message argument.
\<close>
theorem constructors_set_code_and_human_message:
  "\<exists>w. as_wrapper (fst (construct c action message err payload h)) = Some w \<and>
       payload_get (snd (construct c action message err payload h)) w ''code''
         = Some (Sprint (Code w)) \<and>
       payload_get (snd (construct c action message err payload h)) w ''human_message''
         = Some message"
proof -
  obtain a where
    "as_wrapper (fst (NewErrorWrapper action message (documented_status c) err payload h))
       = Some (ErrorWrapper action message (Some a) (documented_status c) err)"
    "cells (snd (NewErrorWrapper action message (documented_status c) err payload h)) a ''code''
       = Some (Sprint (documented_status c))"
    "cells (snd (NewErrorWrapper action message (documented_status c) err payload h)) a
       ''human_message'' = Some message"
    using NewErrorWrapper_instance by blast
  then show ?thesis by (simp add: construct_eq payload_get_def)
qed

lemma result_code_NewErrorWrapper:
  "result_code (NewErrorWrapper action message code err payload h) = Some code"
proof -
  obtain a where "as_wrapper (fst (NewErrorWrapper action message code err payload h))
         = Some (ErrorWrapper action message (Some a) code err)"
    using NewErrorWrapper_instance by blast
  then show ?thesis by (simp add: result_code_def)
qed

text \<open>
  C4. Each constructor named after a status returns what the generic builder returns
  with that status as its code, and the code of the wrapper it returns is that status.
\<close>
theorem status_constructors_fix_code:
  "NewBadRequestError action message err payload h
     = NewErrorWrapper action message 400 err payload h \<and>
   result_code (NewBadRequestError action message err payload h) = Some 400 \<and>
   NewUnauthorizedError action message err payload h
     = NewErrorWrapper action message 401 err payload h \<and>
   result_code (NewUnauthorizedError action message err payload h) = Some 401 \<and>
   NewPaymentRequiredError action message err payload h
     = NewErrorWrapper action message 402 err payload h \<and>
   result_code (NewPaymentRequiredError action message err payload h) = Some 402 \<and>
   NewForbiddenError action message err payload h
     = NewErrorWrapper action message 403 err payload h \<and>
   result_code (NewForbiddenError action message err payload h) = Some 403 \<and>
   NewNotFoundError action message err payload h
     = NewErrorWrapper action message 404 err payload h \<and>
   result_code (NewNotFoundError action message err payload h) = Some 404 \<and>
   NewUnprocessableEntityError action message err payload h
     = NewErrorWrapper action message 422 err payload h \<and>
   result_code (NewUnprocessableEntityError action message err payload h) = Some 422 \<and>
   NewInternalServerError action message err payload h
     = NewErrorWrapper action message 500 err payload h \<and>
   result_code (NewInternalServerError action message err payload h) = Some 500 \<and>
   NewNotImplementedError action message err payload h
     = NewErrorWrapper action message 501 err payload h \<and>
   result_code (NewNotImplementedError action message err payload h) = Some 501 \<and>
   NewBadGatewayError action message err payload h
     = NewErrorWrapper action message 502 err payload h \<and>
   result_code (NewBadGatewayError action message err payload h) = Some 502 \<and>
   NewServiceUnavailableError action message err payload h
     = NewErrorWrapper action message 503 err payload h \<and>
   result_code (NewServiceUnavailableError action message err payload h) = Some 503 \<and>
   NewGatewayTimeoutError action message err payload h
     = NewErrorWrapper action message 504 err payload h \<and>
   result_code (NewGatewayTimeoutError action message err payload h) = Some 504"
proof -
  have e400: "NewBadRequestError action message err payload h
     = NewErrorWrapper action message 400 err payload h"
    by (simp add: NewBadRequestError_def NewErrorWrapper_def StatusBadRequest_def)
  have e401: "NewUnauthorizedError action message err payload h
     = NewErrorWrapper action message 401 err payload h"
    by (simp add: NewUnauthorizedError_def NewErrorWrapper_def StatusUnauthorized_def)
  have e402: "NewPaymentRequiredError action message err payload h
     = NewErrorWrapper action message 402 err payload h"
    by (simp add: NewPaymentRequiredError_def NewErrorWrapper_def StatusPaymentRequired_def)
  have e403: "NewForbiddenError action message err payload h
     = NewErrorWrapper action message 403 err payload h"
    by (simp add: NewForbiddenError_def NewErrorWrapper_def StatusForbidden_def)
  have e404: "NewNotFoundError action message err payload h
     = NewErrorWrapper action message 404 err payload h"
    by (simp add: NewNotFoundError_def NewErrorWrapper_def StatusNotFound_def)
  have e422: "NewUnprocessableEntityError action message err payload h
     = NewErrorWrapper action message 422 err payload h"
    by (simp add: NewUnprocessableEntityError_def NewErrorWrapper_def StatusUnprocessableEntity_def)
  have e500: "NewInternalServerError action message err payload h
     = NewErrorWrapper action message 500 err payload h"
    by (simp add: NewInternalServerError_def NewErrorWrapper_def StatusInternalServerError_def)
  have e501: "NewNotImplementedError action message err payload h
     = NewErrorWrapper action message 501 err payload h"
    by (simp add: NewNotImplementedError_def NewErrorWrapper_def StatusNotImplemented_def)
  have e502: "NewBadGatewayError action message err payload h
     = NewErrorWrapper action message 502 err payload h"
    by (simp add: NewBadGatewayError_def NewErrorWrapper_def StatusBadGateway_def)
  have e503: "NewServiceUnavailableError action message err payload h
     = NewErrorWrapper action message 503 err payload h"
    by (simp add: NewServiceUnavailableError_def NewErrorWrapper_def StatusServiceUnavailable_def)
  have e504: "NewGatewayTimeoutError action message err payload h
     = NewErrorWrapper action message 504 err payload h"
    by (simp add: NewGatewayTimeoutError_def NewErrorWrapper_def StatusGatewayTimeout_def)
  show ?thesis
    unfolding e400 e401 e402 e403 e404 e422 e500 e501 e502 e503 e504 result_code_NewErrorWrapper
    by simp
qed

section \<open>Payload mutation\<close>

text \<open>
  C7. \<open>AddPayloadValue(key, value)\<close> on a nil payload allocates a map holding exactly
  the entry \<open>key \<mapsto> value\<close>; on a payload that is present it assigns the key in that
  map. Two calls with the same key leave the second value and the same set of keys as
  after the first call.
\<close>
theorem AddPayloadValue_upsert:
  "(Payload w = None \<longrightarrow>
      (\<exists>a. Payload (fst (AddPayloadValue w k v h)) = Some a \<and>
           cells (snd (AddPayloadValue w k v h)) a = [k \<mapsto> v] \<and>
           dom (cells (snd (AddPayloadValue w k v h)) a) = {k})) \<and>
   (Payload w = Some a \<longrightarrow>
      Payload (fst (AddPayloadValue w k v h)) = Some a \<and>
      cells (snd (AddPayloadValue w k v h)) a = (cells h a)(k \<mapsto> v)) \<and>
   (let (w1, h1) = AddPayloadValue w k v1 h;
        (w2, h2) = AddPayloadValue w1 k v2 h1
    in \<exists>a. Payload w1 = Some a \<and> Payload w2 = Some a \<and>
           payload_get h1 w1 k = Some v1 \<and> payload_get h2 w2 k = Some v2 \<and>
           cells h2 a = (cells h1 a)(k \<mapsto> v2) \<and>
           dom (cells h2 a) = dom (cells h1 a))"
proof (intro conjI impI)
  assume "Payload w = None"
  then show "\<exists>a. Payload (fst (AddPayloadValue w k v h)) = Some a \<and>
           cells (snd (AddPayloadValue w k v h)) a = [k \<mapsto> v] \<and>
           dom (cells (snd (AddPayloadValue w k v h)) a) = {k}"
    by (simp add: AddPayloadValue_def alloc_def set_Payload_def)
next
  assume "Payload w = Some a"
  then show "Payload (fst (AddPayloadValue w k v h)) = Some a"
    and "cells (snd (AddPayloadValue w k v h)) a = (cells h a)(k \<mapsto> v)"
    by (simp_all add: AddPayloadValue_def map_assign_def)
next
  show "let (w1, h1) = AddPayloadValue w k v1 h;
        (w2, h2) = AddPayloadValue w1 k v2 h1
    in \<exists>a. Payload w1 = Some a \<and> Payload w2 = Some a \<and>
           payload_get h1 w1 k = Some v1 \<and> payload_get h2 w2 k = Some v2 \<and>
           cells h2 a = (cells h1 a)(k \<mapsto> v2) \<and>
           dom (cells h2 a) = dom (cells h1 a)"
  proof (cases "Payload w")
    case None
    then show ?thesis
      by (simp add: AddPayloadValue_def alloc_def set_Payload_def map_assign_def payload_get_def)
  next
    case (Some a)
    then show ?thesis
      by (auto simp add: AddPayloadValue_def map_assign_def payload_get_def)
  qed
qed

theorem AddPayloadValue_upsert_witness:
  "Payload leaf = None \<and>
   (\<exists>a. Payload (fst (AddPayloadValue leaf ''k'' ''v'' heap_ex)) = Some a \<and>
        cells (snd (AddPayloadValue leaf ''k'' ''v'' heap_ex)) a = [''k'' \<mapsto> ''v''] \<and>
        dom (cells (snd (AddPayloadValue leaf ''k'' ''v'' heap_ex)) a) = {''k''}) \<and>
   Payload bare = Some 0 \<and>
   Payload (fst (AddPayloadValue bare ''code'' ''v'' heap_ex)) = Some 0 \<and>
   cells (snd (AddPayloadValue bare ''code'' ''v'' heap_ex)) 0 = (cells heap_ex 0)(''code'' \<mapsto> ''v'') \<and>
   cells (snd (AddPayloadValue bare ''code'' ''v'' heap_ex)) 0 ''code'' = Some ''v''"
proof -
  note T = AddPayloadValue_upsert
  have h1: "Payload leaf = None" by (simp add: leaf_def)
  have h2: "Payload bare = Some 0" by (simp add: bare_def)
  have c1: "\<exists>a. Payload (fst (AddPayloadValue leaf ''k'' ''v'' heap_ex)) = Some a \<and>
        cells (snd (AddPayloadValue leaf ''k'' ''v'' heap_ex)) a = [''k'' \<mapsto> ''v''] \<and>
        dom (cells (snd (AddPayloadValue leaf ''k'' ''v'' heap_ex)) a) = {''k''}"
    using T[where w = leaf and k = "''k''" and v = "''v''" and h = heap_ex, THEN conjunct1] h1
    by (rule mp)
  have c2: "Payload (fst (AddPayloadValue bare ''code'' ''v'' heap_ex)) = Some 0 \<and>
     cells (snd (AddPayloadValue bare ''code'' ''v'' heap_ex)) 0 = (cells heap_ex 0)(''code'' \<mapsto> ''v'')"
    using T[where w = bare and k = "''code''" and v = "''v''" and h = heap_ex and a = 0,
            THEN conjunct2, THEN conjunct1] h2
    by (rule mp)
  then have c3: "cells (snd (AddPayloadValue bare ''code'' ''v'' heap_ex)) 0 ''code'' = Some ''v''"
    by simp
  show ?thesis using h1 h2 c1 c2 c3 by simp
qed

section \<open>The constructors and the caller's payload\<close>

text \<open>
  C3 (amended). The constructors write \<open>code\<close> and \<open>human_message\<close> after, and over,
  the caller's entries: given an allocated map, the wrapper holds that same map, with
  \<open>code\<close> and \<open>human_message\<close> assigned by the constructor and every other entry of the
  caller kept; given the nil map, the wrapper holds a new map with these two entries.
\<close>
theorem constructors_write_over_caller_payload:
  "(payload = Some a \<and> a < next_addr h \<longrightarrow>
      (\<exists>w. as_wrapper (fst (construct c action message err payload h)) = Some w \<and>
           Payload w = Some a \<and>
           cells (snd (construct c action message err payload h)) a
             = (cells h a)(''code'' \<mapsto> Sprint (documented_status c),
                           ''human_message'' \<mapsto> message))) \<and>
   (payload = None \<longrightarrow>
      (\<exists>w b. as_wrapper (fst (construct c action message err payload h)) = Some w \<and>
             Payload w = Some b \<and>
             cells (snd (construct c action message err payload h)) b
               = [''code'' \<mapsto> Sprint (documented_status c), ''human_message'' \<mapsto> message]))"
  by (auto simp add: construct_eq NewErrorWrapper_nil_payload NewErrorWrapper_some_payload
        as_wrapper_def)

theorem constructors_write_over_caller_payload_witness:
  "0 < next_addr heap_ex \<and>
   (\<exists>w. as_wrapper (fst (construct NotFound ''db.find'' ''user not found'' None (Some 0) heap_ex))
          = Some w \<and> Payload w = Some 0 \<and>
        cells (snd (construct NotFound ''db.find'' ''user not found'' None (Some 0) heap_ex)) 0
          = [''code'' \<mapsto> ''404'', ''trace'' \<mapsto> ''abc'', ''human_message'' \<mapsto> ''user not found'']) \<and>
   (\<exists>w b. as_wrapper (fst (construct NotFound ''db.find'' ''user not found'' None None heap_ex))
          = Some w \<and> Payload w = Some b \<and>
        cells (snd (construct NotFound ''db.find'' ''user not found'' None None heap_ex)) b
          = [''code'' \<mapsto> ''404'', ''human_message'' \<mapsto> ''user not found''])"
proof -
  note T = constructors_write_over_caller_payload
  have h1: "Some 0 = Some (0::nat) \<and> 0 < next_addr heap_ex" by (simp add: heap_ex_def)
  have m: "(cells heap_ex 0)(''code'' \<mapsto> ''404'', ''human_message'' \<mapsto> ''user not found'')
           = [''code'' \<mapsto> ''404'', ''trace'' \<mapsto> ''abc'', ''human_message'' \<mapsto> ''user not found'']"
    by (auto simp add: heap_ex_def fun_eq_iff)
  have c1: "\<exists>w. as_wrapper (fst (construct NotFound ''db.find'' ''user not found'' None (Some 0) heap_ex))
          = Some w \<and> Payload w = Some 0 \<and>
        cells (snd (construct NotFound ''db.find'' ''user not found'' None (Some 0) heap_ex)) 0
          = [''code'' \<mapsto> ''404'', ''trace'' \<mapsto> ''abc'', ''human_message'' \<mapsto> ''user not found'']"
    using T[where payload = "Some 0" and a = 0 and h = heap_ex and c = NotFound
              and action = "''db.find''" and message = "''user not found''" and err = None,
            THEN conjunct1, THEN mp, OF h1]
    by (simp only: documented_status.simps Sprint_404 m)
  have c2: "\<exists>w b. as_wrapper (fst (construct NotFound ''db.find'' ''user not found'' None None heap_ex))
          = Some w \<and> Payload w = Some b \<and>
        cells (snd (construct NotFound ''db.find'' ''user not found'' None None heap_ex)) b
          = [''code'' \<mapsto> ''404'', ''human_message'' \<mapsto> ''user not found'']"
    using T[where payload = None and h = heap_ex and c = NotFound
              and action = "''db.find''" and message = "''user not found''" and err = None,
            THEN conjunct2, THEN mp, OF refl]
    by (simp only: documented_status.simps Sprint_404)
  have h0: "0 < next_addr heap_ex" by (simp add: heap_ex_def)
  show ?thesis by (intro conjI) (rule h0 c1 c2)+
qed

text \<open>
  The claim as first stated fails: the caller's map holds \<open>code \<mapsto> teapot\<close>, and the
  payload of the wrapper that \<open>NewNotFoundError\<close> returns maps \<open>code\<close> to \<open>404\<close>.
\<close>

theorem caller_code_overwritten_counterexample:
  "cells heap_ex 0 ''code'' = Some ''teapot'' \<and>
   as_wrapper (fst (NewNotFoundError ''db.find'' ''user not found'' None (Some 0) heap_ex))
     = Some bare \<and>
   payload_get (snd (NewNotFoundError ''db.find'' ''user not found'' None (Some 0) heap_ex))
      bare ''code'' = Some ''404''"
proof -
  have "NewNotFoundError ''db.find'' ''user not found'' None (Some 0) heap_ex
        = construct NotFound ''db.find'' ''user not found'' None (Some 0) heap_ex" by simp
  then show ?thesis
    by (simp add: construct_eq NewErrorWrapper_some_payload as_wrapper_def payload_get_def
          bare_def heap_ex_def Sprint_404)
qed

section \<open>Rendering, projection and frame\<close>

text \<open>
  C6 (amended). \<open>Error()\<close> returns the wrapper's own message when no cause is present,
  and what the cause's \<open>Error()\<close> does when a cause is present: the string of a foreign
  cause, the rendering of a wrapper cause. The absent cause is guarded before the call,
  so every panic of \<open>Error()\<close> is a panic of the \<open>Error()\<close> of a foreign error: where no
  foreign \<open>Error()\<close> panics, the result is a string.
\<close>
theorem Error_cause_or_message:
  "(Err w = None \<longrightarrow> Error env w = Inr (Message w)) \<and>
   (Err w = Some e \<longrightarrow> Error env w = error_Error env (Some e)) \<and>
   (Err w = Some (Foreign p) \<longrightarrow> Error env w = ferror (env p)) \<and>
   (Err w = Some (Wrapped w') \<longrightarrow> Error env w = Error env w') \<and>
   (Error env w = Inl x \<longrightarrow> (\<exists>p. ferror (env p) = Inl x)) \<and>
   ((\<forall>p x. ferror (env p) \<noteq> Inl x) \<longrightarrow> (\<exists>s. Error env w = Inr s))"
proof (intro conjI impI)
  assume "Error env w = Inl x"
  then show "\<exists>p. ferror (env p) = Inl x" by (rule Error_panic_is_foreign)
next
  assume a: "\<forall>p x. ferror (env p) \<noteq> Inl x"
  show "\<exists>s. Error env w = Inr s"
  proof (cases "Error env w")
    case (Inl x)
    then show ?thesis using Error_panic_is_foreign[of env w x] a by blast
  next
    case (Inr s)
    then show ?thesis by blast
  qed
qed simp_all

theorem Error_cause_or_message_witness:
  "Err leaf = None \<and> Error env_ex leaf = Inr ''user not found'' \<and>
   Err over_ctx = Some (Foreign 1) \<and>
   Error env_ex over_ctx = error_Error env_ex (Some (Foreign 1)) \<and>
   Error env_ex over_ctx = Inr ''ctx: user not found'' \<and>
   Err mid = Some (Wrapped leaf) \<and> Error env_ex mid = Error env_ex leaf \<and>
   Error env_ex over_nil_pointer = Inl nil_pointer_panic \<and>
   (\<exists>p. ferror (env_ex p) = Inl nil_pointer_panic) \<and>
   (\<forall>p x. ferror (env_plain p) \<noteq> Inl x) \<and>
   (\<exists>s. Error env_plain over_plain = Inr s)"
proof -
  note T = Error_cause_or_message
  have h1: "Err leaf = None" by (simp add: leaf_def)
  have h2: "Err over_ctx = Some (Foreign 1)" by (simp add: over_ctx_def)
  have h3: "Err mid = Some (Wrapped leaf)" by (simp add: mid_def)
  have h4: "Error env_ex over_nil_pointer = Inl nil_pointer_panic"
    by (simp add: over_nil_pointer_def env_ex_simps)
  have h5: "\<forall>p x. ferror (env_plain p) \<noteq> Inl x" by (simp add: env_plain_def)
  have "Error env_ex leaf = Inr (Message leaf)"
    using T[where w = leaf and env = env_ex, THEN conjunct1] h1 by (rule mp)
  then have c1: "Error env_ex leaf = Inr ''user not found''" by (simp add: leaf_def)
  have c2: "Error env_ex over_ctx = error_Error env_ex (Some (Foreign 1))"
    using T[where w = over_ctx and env = env_ex and e = "Foreign 1",
            THEN conjunct2, THEN conjunct1] h2
    by (rule mp)
  have "Error env_ex over_ctx = ferror (env_ex 1)"
    using T[where w = over_ctx and env = env_ex and p = 1,
            THEN conjunct2, THEN conjunct2, THEN conjunct1] h2
    by (rule mp)
  then have c3: "Error env_ex over_ctx = Inr ''ctx: user not found''"
    by (simp add: env_ex_simps)
  have c4: "Error env_ex mid = Error env_ex leaf"
    using T[where w = mid and env = env_ex and w' = leaf,
            THEN conjunct2, THEN conjunct2, THEN conjunct2, THEN conjunct1] h3
    by (rule mp)
  have c5: "\<exists>p. ferror (env_ex p) = Inl nil_pointer_panic"
    using T[where w = over_nil_pointer and env = env_ex and x = nil_pointer_panic,
            THEN conjunct2, THEN conjunct2, THEN conjunct2, THEN conjunct2, THEN conjunct1] h4
    by (rule mp)
  have c6: "\<exists>s. Error env_plain over_plain = Inr s"
    using T[where w = over_plain and env = env_plain,
            THEN conjunct2, THEN conjunct2, THEN conjunct2, THEN conjunct2, THEN conjunct2] h5
    by (rule mp)
  show ?thesis by (intro conjI) (rule h1 c1 h2 c2 c3 h3 c4 h4 c5 h5 c6)+
qed

text \<open>
  The claim as first stated fails on a wrapper whose cause is the nil pointer
  \<open>(*ErrorWrapper)(nil)\<close>: the cause is not the nil interface, so the guard lets it
  through, and the call of its \<open>Error()\<close> panics.
\<close>

theorem Error_nil_pointer_counterexample:
  "Err over_nil_pointer = Some (Foreign 5) \<and> Err over_nil_pointer \<noteq> None \<and>
   Error env_ex over_nil_pointer = Inl nil_pointer_panic"
  by (simp add: over_nil_pointer_def env_ex_simps)

text \<open>
  C10. \<open>AddPayloadValue\<close> and \<open>AddPayloadValues\<close> leave the action, message, code and
  cause fields of the receiver as they were.
\<close>
theorem AddPayload_frame:
  "Action (fst (AddPayloadValue w k v h)) = Action w \<and>
   Message (fst (AddPayloadValue w k v h)) = Message w \<and>
   Code (fst (AddPayloadValue w k v h)) = Code w \<and>
   Err (fst (AddPayloadValue w k v h)) = Err w \<and>
   Action (fst (AddPayloadValues w vals h)) = Action w \<and>
   Message (fst (AddPayloadValues w vals h)) = Message w \<and>
   Code (fst (AddPayloadValues w vals h)) = Code w \<and>
   Err (fst (AddPayloadValues w vals h)) = Err w"
  by (simp add: AddPayloadValue_def AddPayloadValues_def set_Payload_def alloc_def
           split: option.split)

text \<open>
  C9. \<open>AsJSONResponse()\<close> returns a map with the two keys \<open>action\<close> and \<open>message\<close> and no
  other, holding the Action and Message fields; for the wrapper of any constructor
  these are the action and message arguments.
\<close>
theorem AsJSONResponse_two_keys:
  "cells (snd (AsJSONResponse w h)) (fst (AsJSONResponse w h))
     = [''action'' \<mapsto> Action w, ''message'' \<mapsto> Message w] \<and>
   dom (cells (snd (AsJSONResponse w h)) (fst (AsJSONResponse w h))) = {''action'', ''message''} \<and>
   card (dom (cells (snd (AsJSONResponse w h)) (fst (AsJSONResponse w h)))) = 2 \<and>
   (\<exists>w'. as_wrapper (fst (construct c action message err payload h0)) = Some w' \<and>
         cells (snd (AsJSONResponse w' h)) (fst (AsJSONResponse w' h))
           = [''action'' \<mapsto> action, ''message'' \<mapsto> message])"
proof -
  have 1: "cells (snd (AsJSONResponse w h)) (fst (AsJSONResponse w h))
     = [''action'' \<mapsto> Action w, ''message'' \<mapsto> Message w]" for w
    by (simp add: AsJSONResponse_def alloc_def)
  have 2: "dom [''action'' \<mapsto> Action w, ''message'' \<mapsto> Message w] = {''action'', ''message''}"
    by auto
  have 3: "card {''action'', ''message''} = 2" by simp
  obtain a where "as_wrapper (fst (NewErrorWrapper action message (documented_status c) err payload h0))
         = Some (ErrorWrapper action message (Some a) (documented_status c) err)"
    using NewErrorWrapper_instance by blast
  then have 4: "\<exists>w'. as_wrapper (fst (construct c action message err payload h0)) = Some w' \<and>
         cells (snd (AsJSONResponse w' h)) (fst (AsJSONResponse w' h))
           = [''action'' \<mapsto> action, ''message'' \<mapsto> message]"
    by (simp add: construct_eq 1)
  show ?thesis using 1[of w] 2 3 4 by simp
qed

end
